theory Spec2Isabelle
  imports Main "HOL-Library.AList"
begin

section \<open>Values shared by the hooks\<close>

text \<open>
  Objects of the JavaScript heap are known by their address; two objects are the same
  object (\<^verbatim>\<open>Object.is\<close>) exactly when their addresses agree. Callback functions and
  event objects are opaque to the hooks, so only their identity is kept.
\<close>

type_synonym addr = nat
type_synonym handler = nat
type_synonym event = nat

datatype error = TypeError | SecurityError | QuotaExceededError | SyntaxError

section \<open>The event platform consumed by useEventListener\<close>

text \<open>
  A target is the global \<^verbatim>\<open>window\<close> or some other object. \<open>Object a m\<close> is the object at
  address \<open>a\<close>; \<open>m\<close> tells whether it carries the listener methods
  (\<^verbatim>\<open>addEventListener\<close> and \<^verbatim>\<open>removeEventListener\<close>).
\<close>

datatype target = Window | Object addr bool

text \<open>The fourth argument \<^verbatim>\<open>options?: boolean | AddEventListenerOptions\<close>.\<close>

datatype options = OptUndefined | OptBoolean bool | OptObject addr

record AddEventListenerOptions =
  opt_capture :: bool
  opt_once :: bool
  opt_passive :: bool

text \<open>
  The closure \<^verbatim>\<open>(event) => savedHandler.current(event)\<close>: its own identity and the
  address of the ref object it closes over.
\<close>

datatype listener = Listener addr addr

datatype platform_call =
    AddCall target string listener options
  | RemoveCall target string listener options

datatype registration = Registration target string listener bool bool

fun reg_target :: "registration \<Rightarrow> target" where
  "reg_target (Registration t n l c once1) = t"

fun reg_type :: "registration \<Rightarrow> string" where
  "reg_type (Registration t n l c once1) = n"

fun reg_callback :: "registration \<Rightarrow> listener" where
  "reg_callback (Registration t n l c once1) = l"

fun reg_capture :: "registration \<Rightarrow> bool" where
  "reg_capture (Registration t n l c once1) = c"

fun reg_once :: "registration \<Rightarrow> bool" where
  "reg_once (Registration t n l c once1) = once1"

text \<open>
  The state outside the hook: the heap (the \<^verbatim>\<open>current\<close> field of every element ref, the
  fields of every options object, the \<^verbatim>\<open>current\<close> field of every handler ref made by
  \<^verbatim>\<open>useRef\<close>), the allocation counter, the log of listener calls made on the platform,
  the platform's listener list, and the log of handler invocations.
\<close>

record platform =
  refs :: "addr \<Rightarrow> target option"
  optionObjects :: "addr \<Rightarrow> AddEventListenerOptions"
  handlerRefs :: "addr \<Rightarrow> handler"
  next_addr :: addr
  calls :: "platform_call list"
  listeners :: "registration list"
  invoked :: "(handler \<times> event) list"

text \<open>Truthiness of \<^verbatim>\<open>targetElement?.addEventListener\<close> for a target that is not null.\<close>

fun has_addEventListener :: "target \<Rightarrow> bool" where
  "has_addEventListener Window = True"
| "has_addEventListener (Object a m) = m"

text \<open>How the platform reads the capture and once flags of the options argument.\<close>

fun capture_of :: "platform \<Rightarrow> options \<Rightarrow> bool" where
  "capture_of p OptUndefined = False"
| "capture_of p (OptBoolean b) = b"
| "capture_of p (OptObject a) = opt_capture (optionObjects p a)"

fun once_of :: "platform \<Rightarrow> options \<Rightarrow> bool" where
  "once_of p OptUndefined = False"
| "once_of p (OptBoolean b) = False"
| "once_of p (OptObject a) = opt_once (optionObjects p a)"

definition same_key :: "target \<Rightarrow> string \<Rightarrow> listener \<Rightarrow> bool \<Rightarrow> registration \<Rightarrow> bool" where
  "same_key t n l c r =
     (reg_target r = t \<and> reg_type r = n \<and> reg_callback r = l \<and> reg_capture r = c)"

text \<open>
  The platform's side of the two methods. Calling a method the object does not have
  raises a TypeError. Otherwise the call is logged and the listener list changes as the
  DOM prescribes: a listener is appended unless one with the same type, callback and
  capture flag is already there, and removal deletes the one with that key.
\<close>

definition register ::
  "target \<Rightarrow> string \<Rightarrow> listener \<Rightarrow> bool \<Rightarrow> bool \<Rightarrow> registration list \<Rightarrow> registration list" where
  "register t n l c o1 rs =
     (if list_ex (same_key t n l c) rs then rs else rs @ [Registration t n l c o1])"

definition unregister ::
  "target \<Rightarrow> string \<Rightarrow> listener \<Rightarrow> bool \<Rightarrow> registration list \<Rightarrow> registration list" where
  "unregister t n l c rs = filter (\<lambda>r. \<not> same_key t n l c r) rs"

definition addEventListener ::
  "target \<Rightarrow> string \<Rightarrow> listener \<Rightarrow> options \<Rightarrow> platform \<Rightarrow> error + platform" where
  "addEventListener t n l opt p =
     (if \<not> has_addEventListener t then Inl TypeError
      else Inr (p\<lparr>calls := calls p @ [AddCall t n l opt],
                  listeners :=
                    register t n l (capture_of p opt) (once_of p opt) (listeners p)\<rparr>))"

definition removeEventListener ::
  "target \<Rightarrow> string \<Rightarrow> listener \<Rightarrow> options \<Rightarrow> platform \<Rightarrow> error + platform" where
  "removeEventListener t n l opt p =
     (if \<not> has_addEventListener t then Inl TypeError
      else Inr (p\<lparr>calls := calls p @ [RemoveCall t n l opt],
                  listeners := unregister t n l (capture_of p opt) (listeners p)\<rparr>))"

text \<open>
  Invoking the listener closure: it reads the handler ref at that moment and calls what
  it finds there with the event.
\<close>

fun invoke :: "listener \<Rightarrow> event \<Rightarrow> platform \<Rightarrow> platform" where
  "invoke (Listener c r) ev p = p\<lparr>invoked := invoked p @ [(handlerRefs p r, ev)]\<rparr>"

text \<open>
  An event of type \<open>n\<close> fired at target \<open>t\<close>: every listener registered there for that type
  is invoked, in registration order; those registered with \<open>once\<close> are dropped.
\<close>

definition dispatchEvent :: "target \<Rightarrow> string \<Rightarrow> event \<Rightarrow> platform \<Rightarrow> platform" where
  "dispatchEvent t n ev p =
     fold (\<lambda>r q. invoke (reg_callback r) ev q)
       (filter (\<lambda>r. reg_target r = t \<and> reg_type r = n) (listeners p))
       (p\<lparr>listeners :=
            filter (\<lambda>r. \<not> (reg_target r = t \<and> reg_type r = n \<and> reg_once r)) (listeners p)\<rparr>)"

section \<open>useEventListener\<close>

text \<open>
  The hook is a function of React: what it does depends on what React kept from the
  previous render. A render is taken here together with the effects React runs for it,
  as one step. Handlers are opaque: calling one is recorded in \<open>invoked\<close>.

  The arguments of one call: eventName, handler, element, options. The element is
  \<^verbatim>\<open>undefined\<close> (\<open>None\<close>) or the address of a ref object.
\<close>

datatype props = Props string handler "addr option" options

type_synonym subscription = "target \<times> string \<times> listener \<times> options"

text \<open>
  What React keeps for one mounted call of the hook: the ref object made by \<^verbatim>\<open>useRef\<close>,
  the dependency arrays of the two effects as of the last render, and the cleanup
  function returned by the second effect (the variables it closed over), if any.
\<close>

record hook_state =
  savedHandler :: addr
  handler_deps :: handler
  listener_deps :: "string \<times> addr option \<times> options"
  cleanup :: "subscription option"

text \<open>\<^verbatim>\<open>const savedHandler = useRef(handler)\<close> on the first render.\<close>

definition useRef :: "handler \<Rightarrow> platform \<Rightarrow> addr \<times> platform" where
  "useRef initial p =
     (next_addr p,
      p\<lparr>handlerRefs := (handlerRefs p)(next_addr p := initial),
        next_addr := Suc (next_addr p)\<rparr>)"

text \<open>The first effect: \<^verbatim>\<open>savedHandler.current = handler\<close>.\<close>

definition handler_effect :: "addr \<Rightarrow> handler \<Rightarrow> platform \<Rightarrow> platform" where
  "handler_effect r h p = p\<lparr>handlerRefs := (handlerRefs p)(r := h)\<rparr>"

text \<open>\<^verbatim>\<open>element?.current ?? window\<close>.\<close>

definition targetElement :: "addr option \<Rightarrow> platform \<Rightarrow> target" where
  "targetElement element p =
     (case (case element of None \<Rightarrow> None | Some r \<Rightarrow> refs p r) of
        None \<Rightarrow> Window
      | Some t \<Rightarrow> t)"

text \<open>The second effect; the result carries the cleanup function it returns, if any.\<close>

definition listener_effect ::
  "addr \<Rightarrow> string \<Rightarrow> addr option \<Rightarrow> options \<Rightarrow> platform
     \<Rightarrow> error + (subscription option \<times> platform)" where
  "listener_effect r eventName element opt p =
     (let t = targetElement element p in
      if \<not> has_addEventListener t then Inr (None, p)
      else
        let l = Listener (next_addr p) r in
        case addEventListener t eventName l opt (p\<lparr>next_addr := Suc (next_addr p)\<rparr>) of
          Inl e \<Rightarrow> Inl e
        | Inr p' \<Rightarrow> Inr (Some (t, eventName, l, opt), p'))"

text \<open>Running a cleanup function: \<^verbatim>\<open>targetElement.removeEventListener(eventName, listener, options)\<close>.\<close>

fun run_cleanup :: "subscription option \<Rightarrow> platform \<Rightarrow> error + platform" where
  "run_cleanup None p = Inr p"
| "run_cleanup (Some (t, n, l, opt)) p = removeEventListener t n l opt p"

text \<open>The first render of a component: the ref is made, then both effects run in order.\<close>

fun useEventListener_mount :: "props \<Rightarrow> platform \<Rightarrow> error + (hook_state \<times> platform)" where
  "useEventListener_mount (Props eventName h element opt) p =
     (case useRef h p of (r, p1) \<Rightarrow>
        (case listener_effect r eventName element opt (handler_effect r h p1) of
           Inl e \<Rightarrow> Inl e
         | Inr (c, p2) \<Rightarrow>
             Inr (\<lparr>savedHandler = r, handler_deps = h,
                   listener_deps = (eventName, element, opt), cleanup = c\<rparr>, p2)))"

text \<open>
  A later render. \<^verbatim>\<open>useRef\<close> returns the ref object of the first render. An effect runs
  again only when some entry of its dependency array is not the same value
  (\<^verbatim>\<open>Object.is\<close>) as at the previous render. React first runs the cleanup functions of
  the effects that are about to run again (only the second effect returns one), then
  those effects in the order of the source.
\<close>

fun useEventListener_update ::
  "props \<Rightarrow> hook_state \<Rightarrow> platform \<Rightarrow> error + (hook_state \<times> platform)" where
  "useEventListener_update (Props eventName h element opt) hs p =
     (case (if (eventName, element, opt) = listener_deps hs then Inr p
            else run_cleanup (cleanup hs) p) of
        Inl e \<Rightarrow> Inl e
      | Inr p1 \<Rightarrow>
          (let p2 = (if h = handler_deps hs then p1
                     else handler_effect (savedHandler hs) h p1)
           in if (eventName, element, opt) = listener_deps hs
              then Inr (hs\<lparr>handler_deps := h\<rparr>, p2)
              else
                (case listener_effect (savedHandler hs) eventName element opt p2 of
                   Inl e \<Rightarrow> Inl e
                 | Inr (c, p3) \<Rightarrow>
                     Inr (hs\<lparr>handler_deps := h,
                             listener_deps := (eventName, element, opt),
                             cleanup := c\<rparr>, p3))))"

text \<open>Unmounting the component runs the pending cleanup function.\<close>

definition useEventListener_unmount :: "hook_state \<Rightarrow> platform \<Rightarrow> error + platform" where
  "useEventListener_unmount hs p = run_cleanup (cleanup hs) p"

subsection \<open>A component using the hook, and what can happen to it\<close>

type_synonym system = "hook_state option \<times> platform"

datatype action =
    Render props
  | Unmount
  | SetCurrent addr "target option"
  | SetOptions addr AddEventListenerOptions
  | Dispatch target string event

fun step :: "action \<Rightarrow> system \<Rightarrow> error + system" where
  "step (Render pr) (None, p) =
     (case useEventListener_mount pr p of
        Inl e \<Rightarrow> Inl e
      | Inr (hs, p') \<Rightarrow> Inr (Some hs, p'))"
| "step (Render pr) (Some hs, p) =
     (case useEventListener_update pr hs p of
        Inl e \<Rightarrow> Inl e
      | Inr (hs', p') \<Rightarrow> Inr (Some hs', p'))"
| "step Unmount (None, p) = Inr (None, p)"
| "step Unmount (Some hs, p) =
     (case useEventListener_unmount hs p of
        Inl e \<Rightarrow> Inl e
      | Inr p' \<Rightarrow> Inr (None, p'))"
| "step (SetCurrent r v) (c, p) = Inr (c, p\<lparr>refs := (refs p)(r := v)\<rparr>)"
| "step (SetOptions a v) (c, p) = Inr (c, p\<lparr>optionObjects := (optionObjects p)(a := v)\<rparr>)"
| "step (Dispatch t n ev) (c, p) = Inr (c, dispatchEvent t n ev p)"

fun run :: "action list \<Rightarrow> system \<Rightarrow> error + system" where
  "run [] s = Inr s"
| "run (a # as) s = (case step a s of Inl e \<Rightarrow> Inl e | Inr s' \<Rightarrow> run as s')"

text \<open>A fresh page: no component mounted, nothing registered, nothing logged.\<close>

definition blank :: "(addr \<Rightarrow> target option) \<Rightarrow> (addr \<Rightarrow> AddEventListenerOptions) \<Rightarrow> platform" where
  "blank rs os =
     \<lparr>refs = rs, optionObjects = os, handlerRefs = (\<lambda>_. 0), next_addr = 0,
      calls = [], listeners = [], invoked = []\<rparr>"

definition fresh :: "(addr \<Rightarrow> target option) \<Rightarrow> (addr \<Rightarrow> AddEventListenerOptions) \<Rightarrow> system" where
  "fresh rs os = (None, blank rs os)"

subsection \<open>Reading the log of platform calls\<close>

fun is_add :: "platform_call \<Rightarrow> bool" where
  "is_add (AddCall t n l opt) = True"
| "is_add (RemoveCall t n l opt) = False"

definition count_adds :: "platform_call list \<Rightarrow> nat" where
  "count_adds cs = length (filter is_add cs)"

definition count_removes :: "platform_call list \<Rightarrow> nat" where
  "count_removes cs = length (filter (\<lambda>c. \<not> is_add c) cs)"

text \<open>
  \<open>track cs cur\<close> replays a log from a moment at which \<open>cur\<close> is the subscription added
  and not yet removed. The log is accepted when every add happens while nothing is
  outstanding and every remove carries exactly the four arguments of the outstanding
  add; the result is then what is outstanding at the end.
\<close>

fun track :: "platform_call list \<Rightarrow> subscription option \<Rightarrow> subscription option option" where
  "track [] cur = Some cur"
| "track (AddCall t n l opt # cs) cur =
     (if cur = None then track cs (Some (t, n, l, opt)) else None)"
| "track (RemoveCall t n l opt # cs) cur =
     (if cur = Some (t, n, l, opt) then track cs None else None)"

text \<open>The cleanup function the mounted component holds, if any.\<close>

definition attached :: "system \<Rightarrow> subscription option" where
  "attached s = (case fst s of None \<Rightarrow> None | Some st \<Rightarrow> cleanup st)"

fun attachable :: "subscription option \<Rightarrow> bool" where
  "attachable None = True"
| "attachable (Some (t, n, l, opt)) = has_addEventListener t"

definition consistent :: "system \<Rightarrow> bool" where
  "consistent s =
     (track (calls (snd s)) None = Some (attached s) \<and> attachable (attached s))"

text \<open>Each address differs from the one before it: every object is newly allocated.\<close>

fun fresh_each :: "addr \<Rightarrow> addr list \<Rightarrow> bool" where
  "fresh_each a [] = True"
| "fresh_each a (b # bs) = (b \<noteq> a \<and> fresh_each b bs)"

subsection \<open>A sample page\<close>

text \<open>
  Ref 1 points at an element, ref 2 at an object without listener methods, every other
  ref is empty; every options object is \<^verbatim>\<open>{ passive: true }\<close>.
\<close>

definition demo_refs :: "addr \<Rightarrow> target option" where
  "demo_refs a =
     (if a = 1 then Some (Object 5 True) else if a = 2 then Some (Object 6 False) else None)"

definition demo_options :: "addr \<Rightarrow> AddEventListenerOptions" where
  "demo_options a = \<lparr>opt_capture = False, opt_once = False, opt_passive = True\<rparr>"

section \<open>Web storage and the two storage hooks\<close>

text \<open>
  One storage area of the browser (\<^verbatim>\<open>localStorage\<close> or \<^verbatim>\<open>sessionStorage\<close>): its
  entries in insertion order, whether the page may touch it at all (reading the
  \<^verbatim>\<open>window.localStorage\<close> property raises a SecurityError when it may not), and how many
  characters of keys and values it holds at most (a write past that raises a
  QuotaExceededError).
\<close>

record storage =
  items :: "(string \<times> string) list"
  accessible :: bool
  quota :: nat

datatype console_entry = ConsoleLog error | ConsoleError error

record browser =
  localStorage :: storage
  sessionStorage :: storage
  console :: "console_entry list"

definition used :: "(string \<times> string) list \<Rightarrow> nat" where
  "used kvs = sum_list (map (\<lambda>(k, v). length k + length v) kvs)"

text \<open>Reading the property \<^verbatim>\<open>window.localStorage\<close>, respectively \<^verbatim>\<open>window.sessionStorage\<close>.\<close>

definition window_localStorage :: "browser \<Rightarrow> error + storage" where
  "window_localStorage w =
     (if accessible (localStorage w) then Inr (localStorage w) else Inl SecurityError)"

definition window_sessionStorage :: "browser \<Rightarrow> error + storage" where
  "window_sessionStorage w =
     (if accessible (sessionStorage w) then Inr (sessionStorage w) else Inl SecurityError)"

text \<open>The three methods of a storage area.\<close>

definition storage_getItem :: "string \<Rightarrow> storage \<Rightarrow> string option" where
  "storage_getItem k st = map_of (items st) k"

definition storage_setItem :: "string \<Rightarrow> string \<Rightarrow> storage \<Rightarrow> error + storage" where
  "storage_setItem k v st =
     (if quota st < used (AList.update k v (items st)) then Inl QuotaExceededError
      else Inr (st\<lparr>items := AList.update k v (items st)\<rparr>))"

definition storage_removeItem :: "string \<Rightarrow> storage \<Rightarrow> storage" where
  "storage_removeItem k st = st\<lparr>items := AList.delete k (items st)\<rparr>"

text \<open>
  \<^verbatim>\<open>JSON.stringify\<close> and \<^verbatim>\<open>JSON.parse\<close> belong to the language, not to the repository; the
  hooks take them as parameters. \<^verbatim>\<open>JSON.stringify\<close> may raise, and it may return
  \<^verbatim>\<open>undefined\<close> (\<open>None\<close>), which a storage area stores as the text \<^verbatim>\<open>undefined\<close>.
  \<^verbatim>\<open>JSON.parse\<close> raises a SyntaxError on text that is not JSON.
\<close>

definition DOMString :: "string option \<Rightarrow> string" where
  "DOMString s = (case s of None \<Rightarrow> ''undefined'' | Some t \<Rightarrow> t)"

subsection \<open>useLocalStorage\<close>

text \<open>The body of each \<^verbatim>\<open>try\<close> block, then the function with its \<^verbatim>\<open>catch\<close>.\<close>

definition setItem_try ::
  "('v \<Rightarrow> error + string option) \<Rightarrow> string \<Rightarrow> 'v \<Rightarrow> browser \<Rightarrow> error + storage" where
  "setItem_try JSON_stringify key v w =
     (case window_localStorage w of
        Inl e \<Rightarrow> Inl e
      | Inr st \<Rightarrow>
          (case JSON_stringify v of
             Inl e \<Rightarrow> Inl e
           | Inr s \<Rightarrow> storage_setItem key (DOMString s) st))"

definition setItem ::
  "('v \<Rightarrow> error + string option) \<Rightarrow> string \<Rightarrow> 'v \<Rightarrow> browser \<Rightarrow> browser" where
  "setItem JSON_stringify key v w =
     (case setItem_try JSON_stringify key v w of
        Inl e \<Rightarrow> w\<lparr>console := console w @ [ConsoleLog e]\<rparr>
      | Inr st \<Rightarrow> w\<lparr>localStorage := st\<rparr>)"

definition getItem_try ::
  "(string \<Rightarrow> error + 'v) \<Rightarrow> string \<Rightarrow> browser \<Rightarrow> error + 'v option" where
  "getItem_try JSON_parse key w =
     (case window_localStorage w of
        Inl e \<Rightarrow> Inl e
      | Inr st \<Rightarrow>
          (case storage_getItem key st of
             None \<Rightarrow> Inr None
           | Some item \<Rightarrow>
               (case JSON_parse item of Inl e \<Rightarrow> Inl e | Inr v \<Rightarrow> Inr (Some v))))"

text \<open>The result \<open>None\<close> is \<^verbatim>\<open>undefined\<close>.\<close>

definition getItem ::
  "(string \<Rightarrow> error + 'v) \<Rightarrow> string \<Rightarrow> browser \<Rightarrow> 'v option \<times> browser" where
  "getItem JSON_parse key w =
     (case getItem_try JSON_parse key w of
        Inl e \<Rightarrow> (None, w\<lparr>console := console w @ [ConsoleLog e]\<rparr>)
      | Inr r \<Rightarrow> (r, w))"

definition removeItem_try :: "string \<Rightarrow> browser \<Rightarrow> error + storage" where
  "removeItem_try key w =
     (case window_localStorage w of
        Inl e \<Rightarrow> Inl e
      | Inr st \<Rightarrow> Inr (storage_removeItem key st))"

definition removeItem :: "string \<Rightarrow> browser \<Rightarrow> browser" where
  "removeItem key w =
     (case removeItem_try key w of
        Inl e \<Rightarrow> w\<lparr>console := console w @ [ConsoleLog e]\<rparr>
      | Inr st \<Rightarrow> w\<lparr>localStorage := st\<rparr>)"

text \<open>The hook returns \<^verbatim>\<open>[getItem, setItem, removeItem]\<close>.\<close>

definition useLocalStorage ::
  "(string \<Rightarrow> error + 'v) \<Rightarrow> ('v \<Rightarrow> error + string option) \<Rightarrow> string \<Rightarrow>
     (browser \<Rightarrow> 'v option \<times> browser) \<times> ('v \<Rightarrow> browser \<Rightarrow> browser) \<times> (browser \<Rightarrow> browser)" where
  "useLocalStorage JSON_parse JSON_stringify key =
     (getItem JSON_parse key, setItem JSON_stringify key, removeItem key)"

subsection \<open>useSessionStorage\<close>

definition setSessionStorageItem_try ::
  "('v \<Rightarrow> error + string option) \<Rightarrow> string \<Rightarrow> 'v \<Rightarrow> browser \<Rightarrow> error + storage" where
  "setSessionStorageItem_try JSON_stringify key v w =
     (case window_sessionStorage w of
        Inl e \<Rightarrow> Inl e
      | Inr st \<Rightarrow>
          (case JSON_stringify v of
             Inl e \<Rightarrow> Inl e
           | Inr s \<Rightarrow> storage_setItem key (DOMString s) st))"

definition setSessionStorageItem ::
  "('v \<Rightarrow> error + string option) \<Rightarrow> string \<Rightarrow> 'v \<Rightarrow> browser \<Rightarrow> browser" where
  "setSessionStorageItem JSON_stringify key v w =
     (case setSessionStorageItem_try JSON_stringify key v w of
        Inl e \<Rightarrow> w\<lparr>console := console w @ [ConsoleError e]\<rparr>
      | Inr st \<Rightarrow> w\<lparr>sessionStorage := st\<rparr>)"

definition getSessionStorageItem_try ::
  "(string \<Rightarrow> error + 'v) \<Rightarrow> string \<Rightarrow> browser \<Rightarrow> error + 'v option" where
  "getSessionStorageItem_try JSON_parse key w =
     (case window_sessionStorage w of
        Inl e \<Rightarrow> Inl e
      | Inr st \<Rightarrow>
          (case storage_getItem key st of
             None \<Rightarrow> Inr None
           | Some item \<Rightarrow>
               (case JSON_parse item of Inl e \<Rightarrow> Inl e | Inr v \<Rightarrow> Inr (Some v))))"

definition getSessionStorageItem ::
  "(string \<Rightarrow> error + 'v) \<Rightarrow> string \<Rightarrow> browser \<Rightarrow> 'v option \<times> browser" where
  "getSessionStorageItem JSON_parse key w =
     (case getSessionStorageItem_try JSON_parse key w of
        Inl e \<Rightarrow> (None, w\<lparr>console := console w @ [ConsoleError e]\<rparr>)
      | Inr r \<Rightarrow> (r, w))"

definition removeSessionStorageItem_try :: "string \<Rightarrow> browser \<Rightarrow> error + storage" where
  "removeSessionStorageItem_try key w =
     (case window_sessionStorage w of
        Inl e \<Rightarrow> Inl e
      | Inr st \<Rightarrow> Inr (storage_removeItem key st))"

definition removeSessionStorageItem :: "string \<Rightarrow> browser \<Rightarrow> browser" where
  "removeSessionStorageItem key w =
     (case removeSessionStorageItem_try key w of
        Inl e \<Rightarrow> w\<lparr>console := console w @ [ConsoleError e]\<rparr>
      | Inr st \<Rightarrow> w\<lparr>sessionStorage := st\<rparr>)"

definition useSessionStorage ::
  "(string \<Rightarrow> error + 'v) \<Rightarrow> ('v \<Rightarrow> error + string option) \<Rightarrow> string \<Rightarrow>
     (browser \<Rightarrow> 'v option \<times> browser) \<times> ('v \<Rightarrow> browser \<Rightarrow> browser) \<times> (browser \<Rightarrow> browser)" where
  "useSessionStorage JSON_parse JSON_stringify key =
     (getSessionStorageItem JSON_parse key, setSessionStorageItem JSON_stringify key,
      removeSessionStorageItem key)"

subsection \<open>Sample inputs for the storage hooks\<close>

text \<open>JSON restricted to the two booleans, as the demo component stores them.\<close>

definition demo_stringify :: "bool \<Rightarrow> error + string option" where
  "demo_stringify b = Inr (Some (if b then ''true'' else ''false''))"

definition demo_parse :: "string \<Rightarrow> error + bool" where
  "demo_parse s =
     (if s = ''true'' then Inr True else if s = ''false'' then Inr False else Inl SyntaxError)"

text \<open>A browser with room, one whose storage areas are full, and one that denies access.\<close>

definition demo_area :: "(string \<times> string) list \<Rightarrow> bool \<Rightarrow> nat \<Rightarrow> storage" where
  "demo_area kvs acc q = \<lparr>items = kvs, accessible = acc, quota = q\<rparr>"

definition demo_browser :: browser where
  "demo_browser =
     \<lparr>localStorage = demo_area [(''theme'', ''dark'')] True 100,
      sessionStorage = demo_area [(''theme'', ''dark'')] True 100, console = []\<rparr>"

definition full_browser :: browser where
  "full_browser =
     \<lparr>localStorage = demo_area [] True 5, sessionStorage = demo_area [] True 5, console = []\<rparr>"

definition denied_browser :: browser where
  "denied_browser =
     \<lparr>localStorage = demo_area [(''token'', ''true'')] False 100,
      sessionStorage = demo_area [(''token'', ''true'')] False 100, console = []\<rparr>"

section \<open>Facts about the platform and the effects\<close>

lemma track_append: "track (cs @ ds) cur = Option.bind (track cs cur) (track ds)"
  by (induction cs cur rule: track.induct) auto

lemma track_counts:
  "track cs cur = Some cur' \<Longrightarrow>
     count_adds cs + (if cur = None then 0 else 1) =
     count_removes cs + (if cur' = None then 0 else 1)"
  by (induction cs cur rule: track.induct)
     (auto simp: count_adds_def count_removes_def split: if_splits)

lemma track_last:
  "track cs cur = Some (Some (t, n, l, opt)) \<Longrightarrow> cs \<noteq> [] \<Longrightarrow> last cs = AddCall t n l opt"
  by (induction cs cur rule: track.induct) (auto split: if_splits)

lemma track_nonempty: "track cs None = Some (Some c) \<Longrightarrow> cs \<noteq> []"
  by (cases cs) auto

lemma run_append:
  "run (as @ bs) s = (case run as s of Inl e \<Rightarrow> Inl e | Inr s' \<Rightarrow> run bs s')"
  by (induction as arbitrary: s) (auto split: sum.splits)

lemma targetElement_refs: "refs p' = refs p \<Longrightarrow> targetElement el p' = targetElement el p"
  by (cases el) (simp_all add: targetElement_def)

lemma handler_effect_triv: "handlerRefs p r = h \<Longrightarrow> handler_effect r h p = p"
  by (auto simp: handler_effect_def)

lemma handler_effect_twice: "handler_effect r h2 (handler_effect r h1 p) = handler_effect r h2 p"
  by (simp add: handler_effect_def)

lemma listener_effect_attach:
  "has_addEventListener (targetElement el p) \<Longrightarrow>
   listener_effect r n el opt p =
     Inr (Some (targetElement el p, n, Listener (next_addr p) r, opt),
          p\<lparr>next_addr := Suc (next_addr p),
            calls := calls p @ [AddCall (targetElement el p) n (Listener (next_addr p) r) opt],
            listeners := register (targetElement el p) n (Listener (next_addr p) r)
                           (capture_of p opt) (once_of p opt) (listeners p)\<rparr>)"
  by (cases opt) (simp_all add: listener_effect_def addEventListener_def Let_def)

lemma listener_effect_skip:
  "\<not> has_addEventListener (targetElement el p) \<Longrightarrow> listener_effect r n el opt p = Inr (None, p)"
  by (simp add: listener_effect_def)

lemma run_cleanup_Some:
  "has_addEventListener t \<Longrightarrow>
   run_cleanup (Some (t, n, l, opt)) p =
     Inr (p\<lparr>calls := calls p @ [RemoveCall t n l opt],
            listeners := unregister t n l (capture_of p opt) (listeners p)\<rparr>)"
  by (simp add: removeEventListener_def)

text \<open>What the second effect and a cleanup leave of the log, in one statement for both branches.\<close>

lemma listener_effect_calls:
  "\<exists>c p'. listener_effect r n el opt p = Inr (c, p') \<and>
     c = (if has_addEventListener (targetElement el p)
          then Some (targetElement el p, n, Listener (next_addr p) r, opt) else None) \<and>
     calls p' = calls p @ (if has_addEventListener (targetElement el p)
          then [AddCall (targetElement el p) n (Listener (next_addr p) r) opt] else []) \<and>
     handlerRefs p' = handlerRefs p \<and> refs p' = refs p"
  by (cases "has_addEventListener (targetElement el p)")
     (simp_all add: listener_effect_attach listener_effect_skip)

lemma run_cleanup_calls:
  "attachable c \<Longrightarrow>
   \<exists>p'. run_cleanup c p = Inr p' \<and>
     calls p' = calls p @ (case c of None \<Rightarrow> [] | Some (t, n, l, opt) \<Rightarrow> [RemoveCall t n l opt]) \<and>
     handlerRefs p' = handlerRefs p \<and> refs p' = refs p \<and> next_addr p' = next_addr p"
  by (cases c) (auto simp: removeEventListener_def)

lemma mount_calls:
  "\<exists>st p'. useEventListener_mount (Props n h el opt) p = Inr (st, p') \<and>
     savedHandler st = next_addr p \<and> handler_deps st = h \<and> listener_deps st = (n, el, opt) \<and>
     cleanup st = (if has_addEventListener (targetElement el p)
          then Some (targetElement el p, n, Listener (Suc (next_addr p)) (next_addr p), opt)
          else None) \<and>
     calls p' = calls p
        @ (if has_addEventListener (targetElement el p)
           then [AddCall (targetElement el p) n (Listener (Suc (next_addr p)) (next_addr p)) opt]
           else []) \<and>
     refs p' = refs p \<and> handlerRefs p' (next_addr p) = h"
proof -
  define p2 where "p2 = handler_effect (next_addr p) h (snd (useRef h p))"
  have p2: "calls p2 = calls p" "refs p2 = refs p" "next_addr p2 = Suc (next_addr p)"
    "handlerRefs p2 (next_addr p) = h"
    by (simp_all add: p2_def handler_effect_def useRef_def)
  have t: "targetElement el p2 = targetElement el p"
    by (rule targetElement_refs) (simp add: p2)
  obtain c p3 where p3: "listener_effect (next_addr p) n el opt p2 = Inr (c, p3)"
    "c = (if has_addEventListener (targetElement el p2)
          then Some (targetElement el p2, n, Listener (next_addr p2) (next_addr p), opt) else None)"
    "calls p3 = calls p2 @ (if has_addEventListener (targetElement el p2)
          then [AddCall (targetElement el p2) n (Listener (next_addr p2) (next_addr p)) opt] else [])"
    "handlerRefs p3 = handlerRefs p2" "refs p3 = refs p2"
    using listener_effect_calls [of "next_addr p" n el opt p2] by blast
  have "useEventListener_mount (Props n h el opt) p =
      Inr (\<lparr>savedHandler = next_addr p, handler_deps = h,
            listener_deps = (n, el, opt), cleanup = c\<rparr>, p3)"
    using p3(1) by (simp add: p2_def useRef_def)
  then show ?thesis
    using p3(2-) p2 t by simp
qed

lemma update_same:
  "listener_deps st = (n, el, opt) \<Longrightarrow> handlerRefs p (savedHandler st) = handler_deps st \<Longrightarrow>
   useEventListener_update (Props n h el opt) st p =
     Inr (st\<lparr>handler_deps := h\<rparr>, handler_effect (savedHandler st) h p)"
  by (simp add: handler_effect_triv)

lemma update_same_calls:
  "listener_deps st = (n, el, opt) \<Longrightarrow>
   \<exists>p'. useEventListener_update (Props n h el opt) st p = Inr (st\<lparr>handler_deps := h\<rparr>, p') \<and>
     calls p' = calls p \<and> listeners p' = listeners p \<and> refs p' = refs p"
  by (simp add: handler_effect_def)

lemma update_changed:
  assumes "listener_deps st \<noteq> (n, el, opt)" and "attachable (cleanup st)"
  shows "\<exists>st' p'. useEventListener_update (Props n h el opt) st p = Inr (st', p') \<and>
     savedHandler st' = savedHandler st \<and> handler_deps st' = h \<and>
     listener_deps st' = (n, el, opt) \<and>
     cleanup st' = (if has_addEventListener (targetElement el p)
          then Some (targetElement el p, n, Listener (next_addr p) (savedHandler st), opt)
          else None) \<and>
     calls p' = calls p
        @ (case cleanup st of None \<Rightarrow> [] | Some (t, n, l, opt) \<Rightarrow> [RemoveCall t n l opt])
        @ (if has_addEventListener (targetElement el p)
           then [AddCall (targetElement el p) n (Listener (next_addr p) (savedHandler st)) opt]
           else []) \<and>
     refs p' = refs p"
proof -
  obtain p1 where p1: "run_cleanup (cleanup st) p = Inr p1"
    "calls p1 = calls p @ (case cleanup st of None \<Rightarrow> [] | Some (t, n, l, opt) \<Rightarrow> [RemoveCall t n l opt])"
    "refs p1 = refs p" "next_addr p1 = next_addr p"
    using run_cleanup_calls [OF assms(2), of p] by blast
  define p2 where "p2 = (if h = handler_deps st then p1 else handler_effect (savedHandler st) h p1)"
  have p2: "calls p2 = calls p1" "refs p2 = refs p1" "next_addr p2 = next_addr p1"
    by (simp_all add: p2_def handler_effect_def)
  have t: "targetElement el p2 = targetElement el p"
    by (rule targetElement_refs) (simp add: p2 p1)
  obtain c p3 where p3: "listener_effect (savedHandler st) n el opt p2 = Inr (c, p3)"
    "c = (if has_addEventListener (targetElement el p2)
          then Some (targetElement el p2, n, Listener (next_addr p2) (savedHandler st), opt) else None)"
    "calls p3 = calls p2 @ (if has_addEventListener (targetElement el p2)
          then [AddCall (targetElement el p2) n (Listener (next_addr p2) (savedHandler st)) opt] else [])"
    "refs p3 = refs p2"
    using listener_effect_calls [of "savedHandler st" n el opt p2] by blast
  have "useEventListener_update (Props n h el opt) st p =
      Inr (st\<lparr>handler_deps := h, listener_deps := (n, el, opt), cleanup := c\<rparr>, p3)"
    using assms(1) p1(1) p3(1) by (auto simp: p2_def)
  then show ?thesis
    using p3(2-) p2 p1(2-) t by simp
qed

lemma render_sets_deps:
  "step (Render (Props n h el opt)) s = Inr (c, p) \<Longrightarrow>
   \<exists>st. c = Some st \<and> listener_deps st = (n, el, opt) \<and> handler_deps st = h"
  by (cases s; cases "fst s")
     (auto simp: useRef_def split: sum.splits if_splits prod.splits)

lemma run_snoc_Render_deps:
  assumes "run (acts @ [Render (Props n h el opt)]) s = Inr (c, p)"
  shows "\<exists>st. c = Some st \<and> listener_deps st = (n, el, opt) \<and> handler_deps st = h"
proof -
  obtain s1 where "run acts s = Inr s1" "step (Render (Props n h el opt)) s1 = Inr (c, p)"
    using assms by (auto simp: run_append split: sum.splits)
  then show ?thesis using render_sets_deps by blast
qed

lemma dispatchEvent_calls: "calls (dispatchEvent t n ev p) = calls p"
proof -
  have "calls (fold (\<lambda>r q. invoke (reg_callback r) ev q) rs q) = calls q" for rs q
  proof (induction rs arbitrary: q)
    case Nil
    show ?case by simp
  next
    case (Cons r rs)
    show ?case by (cases "reg_callback r") (simp add: Cons.IH)
  qed
  then show ?thesis by (simp add: dispatchEvent_def)
qed

lemma dispatch_single:
  assumes "listeners p = [Registration t n (Listener k r) c o1]"
  shows "invoked (dispatchEvent t n ev p) = invoked p @ [(handlerRefs p r, ev)]"
  using assms by (simp add: dispatchEvent_def)

subsection \<open>The log stays paired, and no step raises\<close>

lemma consistent_fresh: "consistent (fresh rs os)"
  by (simp add: consistent_def fresh_def blank_def attached_def)

lemma consistent_Render:
  assumes "consistent (c, p)"
  shows "\<exists>st p'. step (Render pr) (c, p) = Inr (Some st, p') \<and> consistent (Some st, p')"
proof (cases pr)
  case (Props n h el opt)
  show ?thesis
  proof (cases c)
    case None
    obtain st p' where m: "useEventListener_mount (Props n h el opt) p = Inr (st, p')"
      "cleanup st = (if has_addEventListener (targetElement el p)
          then Some (targetElement el p, n, Listener (Suc (next_addr p)) (next_addr p), opt)
          else None)"
      "calls p' = calls p
        @ (if has_addEventListener (targetElement el p)
           then [AddCall (targetElement el p) n (Listener (Suc (next_addr p)) (next_addr p)) opt]
           else [])"
      using mount_calls [of n h el opt p] by blast
    have "track (calls p) None = Some None"
      using assms None by (simp add: consistent_def attached_def)
    then have "consistent (Some st, p')"
      using m(2,3) by (simp add: consistent_def attached_def track_append)
    then show ?thesis using None Props m(1) by simp
  next
    case (Some st)
    have tr: "track (calls p) None = Some (cleanup st)" and at: "attachable (cleanup st)"
      using assms Some by (simp_all add: consistent_def attached_def)
    show ?thesis
    proof (cases "listener_deps st = (n, el, opt)")
      case True
      obtain p' where u: "useEventListener_update (Props n h el opt) st p =
          Inr (st\<lparr>handler_deps := h\<rparr>, p')" "calls p' = calls p"
        using update_same_calls [OF True, of h p] by blast
      have "consistent (Some (st\<lparr>handler_deps := h\<rparr>), p')"
        using tr at u(2) by (simp add: consistent_def attached_def)
      then show ?thesis using Some Props u(1) by simp
    next
      case False
      obtain st' p' where u: "useEventListener_update (Props n h el opt) st p = Inr (st', p')"
        "cleanup st' = (if has_addEventListener (targetElement el p)
          then Some (targetElement el p, n, Listener (next_addr p) (savedHandler st), opt)
          else None)"
        "calls p' = calls p
          @ (case cleanup st of None \<Rightarrow> [] | Some (t, n, l, opt) \<Rightarrow> [RemoveCall t n l opt])
          @ (if has_addEventListener (targetElement el p)
             then [AddCall (targetElement el p) n (Listener (next_addr p) (savedHandler st)) opt]
             else [])"
        using update_changed [OF False at, of h p] by blast
      define mid where "mid = calls p
          @ (case cleanup st of None \<Rightarrow> [] | Some (t, n, l, opt) \<Rightarrow> [RemoveCall t n l opt])"
      have mid: "track mid None = Some None"
        using tr by (cases "cleanup st") (auto simp: mid_def track_append)
      have "calls p' = mid
          @ (if has_addEventListener (targetElement el p)
             then [AddCall (targetElement el p) n (Listener (next_addr p) (savedHandler st)) opt]
             else [])"
        using u(3) by (simp add: mid_def)
      then have "track (calls p') None = Some (cleanup st')"
        using u(2) mid by (simp add: track_append)
      then have "consistent (Some st', p')"
        using u(2) by (simp add: consistent_def attached_def)
      then show ?thesis using Some Props u(1) by simp
    qed
  qed
qed

lemma consistent_Unmount:
  assumes "consistent (c, p)"
  shows "\<exists>p'. step Unmount (c, p) = Inr (None, p') \<and> consistent (None, p')"
proof (cases c)
  case None
  then show ?thesis using assms by (simp add: consistent_def attached_def)
next
  case (Some st)
  have tr: "track (calls p) None = Some (cleanup st)" and at: "attachable (cleanup st)"
    using assms Some by (simp_all add: consistent_def attached_def)
  obtain p' where p': "run_cleanup (cleanup st) p = Inr p'"
    "calls p' = calls p @ (case cleanup st of None \<Rightarrow> [] | Some (t, n, l, opt) \<Rightarrow> [RemoveCall t n l opt])"
    using run_cleanup_calls [OF at, of p] by blast
  have "track (calls p') None = Some None"
    using tr p'(2) by (cases "cleanup st") (auto simp: track_append)
  then show ?thesis
    using Some p'(1) by (simp add: useEventListener_unmount_def consistent_def attached_def)
qed

lemma consistent_step:
  assumes "consistent s"
  shows "\<exists>s'. step a s = Inr s' \<and> consistent s'"
proof (cases s)
  case (Pair c p)
  show ?thesis
  proof (cases a)
    case (Render pr)
    then show ?thesis using consistent_Render [of c p pr] assms Pair by auto
  next
    case Unmount
    then show ?thesis using consistent_Unmount [of c p] assms Pair by auto
  next
    case (SetCurrent r v)
    then show ?thesis using assms Pair by (simp add: consistent_def attached_def)
  next
    case (SetOptions a v)
    then show ?thesis using assms Pair by (simp add: consistent_def attached_def)
  next
    case (Dispatch t n ev)
    then show ?thesis using assms Pair
      by (simp add: consistent_def attached_def dispatchEvent_calls)
  qed
qed

lemma consistent_run:
  "consistent s \<Longrightarrow> \<exists>s'. run as s = Inr s' \<and> consistent s'"
proof (induction as arbitrary: s)
  case Nil
  then show ?case by simp
next
  case (Cons a as)
  obtain s1 where "step a s = Inr s1" "consistent s1"
    using consistent_step [OF Cons.prems] by blast
  then show ?case using Cons.IH [of s1] by simp
qed

subsection \<open>Renders that change the handler only\<close>

lemma run_renders_same:
  "listener_deps st = (n, el, opt) \<Longrightarrow> handlerRefs p (savedHandler st) = handler_deps st \<Longrightarrow>
   run (map (\<lambda>h. Render (Props n h el opt)) hs) (Some st, p) =
     Inr (Some (st\<lparr>handler_deps := last (handler_deps st # hs)\<rparr>),
          handler_effect (savedHandler st) (last (handler_deps st # hs)) p)"
proof (induction hs arbitrary: st p)
  case Nil
  then show ?case by (simp add: handler_effect_triv)
next
  case (Cons h hs)
  have "run (map (\<lambda>h. Render (Props n h el opt)) (h # hs)) (Some st, p) =
        run (map (\<lambda>h. Render (Props n h el opt)) hs)
          (Some (st\<lparr>handler_deps := h\<rparr>), handler_effect (savedHandler st) h p)"
    using Cons.prems by (simp add: update_same del: useEventListener_update.simps)
  also have "\<dots> = Inr (Some (st\<lparr>handler_deps := h, handler_deps := last (h # hs)\<rparr>),
          handler_effect (savedHandler st) (last (h # hs)) (handler_effect (savedHandler st) h p))"
    using Cons.IH [of "st\<lparr>handler_deps := h\<rparr>" "handler_effect (savedHandler st) h p"] Cons.prems
    by (simp add: handler_effect_def)
  finally show ?case by (simp add: handler_effect_twice)
qed

lemma mount_blank:
  assumes "has_addEventListener (targetElement el (blank rs os))"
  shows "step (Render (Props n h el opt)) (fresh rs os) =
     Inr (Some \<lparr>savedHandler = 0, handler_deps = h, listener_deps = (n, el, opt),
                 cleanup = Some (targetElement el (blank rs os), n, Listener 1 0, opt)\<rparr>,
          \<lparr>refs = rs, optionObjects = os, handlerRefs = (\<lambda>_. 0)(0 := h), next_addr = 2,
           calls = [AddCall (targetElement el (blank rs os)) n (Listener 1 0) opt],
           listeners = [Registration (targetElement el (blank rs os)) n (Listener 1 0)
                          (capture_of (blank rs os) opt) (once_of (blank rs os) opt)],
           invoked = []\<rparr>)"
proof -
  define p2 where "p2 = handler_effect 0 h (snd (useRef h (blank rs os)))"
  have t: "targetElement el p2 = targetElement el (blank rs os)"
    by (rule targetElement_refs) (simp add: p2_def handler_effect_def useRef_def blank_def)
  have c: "capture_of p2 opt = capture_of (blank rs os) opt"
    "once_of p2 opt = once_of (blank rs os) opt"
    by (cases opt; simp add: p2_def handler_effect_def useRef_def blank_def)+
  have "listener_effect 0 n el opt p2 =
     Inr (Some (targetElement el (blank rs os), n, Listener 1 0, opt),
          \<lparr>refs = rs, optionObjects = os, handlerRefs = (\<lambda>_. 0)(0 := h), next_addr = 2,
           calls = [AddCall (targetElement el (blank rs os)) n (Listener 1 0) opt],
           listeners = [Registration (targetElement el (blank rs os)) n (Listener 1 0)
                          (capture_of (blank rs os) opt) (once_of (blank rs os) opt)],
           invoked = []\<rparr>)"
    using assms t c listener_effect_attach [of el p2 0 n opt]
    by (simp add: p2_def handler_effect_def useRef_def blank_def register_def)
  then show ?thesis
    by (simp add: fresh_def p2_def useRef_def blank_def)
qed

subsection \<open>Renders that change the options object each time\<close>

lemma rebind_each:
  assumes "consistent (Some st, p)"
    and "cleanup st = Some (targetElement el p, n, l, OptObject a)"
    and "listener_deps st = (n, el, OptObject a)"
    and "has_addEventListener (targetElement el p)"
    and "fresh_each a (map snd hbs)"
  shows "\<exists>st' p' l'.
     run (map (\<lambda>(h, b). Render (Props n h el (OptObject b))) hbs) (Some st, p) = Inr (Some st', p') \<and>
     count_adds (calls p') = count_adds (calls p) + length hbs \<and>
     count_removes (calls p') = count_removes (calls p) + length hbs \<and>
     track (calls p') None =
       Some (Some (targetElement el p, n, l', OptObject (last (a # map snd hbs))))"
  using assms
proof (induction hbs arbitrary: st p a l)
  case Nil
  then show ?case by (simp add: consistent_def attached_def)
next
  case (Cons hb hbs)
  obtain h b where hb: "hb = (h, b)" by (cases hb)
  have ne: "listener_deps st \<noteq> (n, el, OptObject b)"
    using Cons.prems(3,5) hb by simp
  have at: "attachable (cleanup st)"
    using Cons.prems(1) by (simp add: consistent_def attached_def)
  obtain st1 p1 where u: "useEventListener_update (Props n h el (OptObject b)) st p = Inr (st1, p1)"
    "listener_deps st1 = (n, el, OptObject b)"
    "cleanup st1 = (if has_addEventListener (targetElement el p)
          then Some (targetElement el p, n, Listener (next_addr p) (savedHandler st), OptObject b)
          else None)"
    "calls p1 = calls p
      @ (case cleanup st of None \<Rightarrow> [] | Some (t, n, l, opt) \<Rightarrow> [RemoveCall t n l opt])
      @ (if has_addEventListener (targetElement el p)
         then [AddCall (targetElement el p) n (Listener (next_addr p) (savedHandler st)) (OptObject b)]
         else [])"
    "refs p1 = refs p"
    using update_changed [OF ne at, of h p] by blast
  have st: "step (Render (Props n h el (OptObject b))) (Some st, p) = Inr (Some st1, p1)"
    using u(1) by simp
  have con: "consistent (Some st1, p1)"
    using consistent_Render [OF Cons.prems(1), of "Props n h el (OptObject b)"] st by simp
  have t1: "targetElement el p1 = targetElement el p"
    by (rule targetElement_refs [OF u(5)])
  have c1: "cleanup st1 =
      Some (targetElement el p1, n, Listener (next_addr p) (savedHandler st), OptObject b)"
    using u(3) Cons.prems(4) t1 by simp
  have cnt: "count_adds (calls p1) = Suc (count_adds (calls p))"
    "count_removes (calls p1) = Suc (count_removes (calls p))"
    using u(4) Cons.prems(2,4)
    by (simp_all add: count_adds_def count_removes_def)
  obtain st' p' l' where r:
    "run (map (\<lambda>(h, b). Render (Props n h el (OptObject b))) hbs) (Some st1, p1) = Inr (Some st', p')"
    "count_adds (calls p') = count_adds (calls p1) + length hbs"
    "count_removes (calls p') = count_removes (calls p1) + length hbs"
    "track (calls p') None =
       Some (Some (targetElement el p1, n, l', OptObject (last (b # map snd hbs))))"
    using Cons.IH [OF con c1 u(2)] t1 Cons.prems(4,5) hb by auto
  show ?case
    using st r cnt hb t1 by simp
qed

lemmas demo_eval = fresh_def blank_def useRef_def handler_effect_def listener_effect_def
  targetElement_def addEventListener_def removeEventListener_def register_def unregister_def
  same_key_def useEventListener_unmount_def demo_refs_def demo_options_def dispatchEvent_def
  count_adds_def count_removes_def

section \<open>Facts about the storage hooks\<close>

lemma map_of_update_same: "map_of (AList.update k v al) k = Some v"
  by (simp add: update_conv')

lemma map_of_delete_same: "map_of (AList.delete k al) k = None"
  by (simp add: delete_conv')

subsection \<open>useLocalStorage\<close>

lemma setItem_accepted:
  assumes "JSON_stringify v = Inr (Some s)" and "accessible (localStorage w)"
    and "used (AList.update key s (items (localStorage w))) \<le> quota (localStorage w)"
  shows "setItem JSON_stringify key v w =
     w\<lparr>localStorage := (localStorage w)\<lparr>items := AList.update key s (items (localStorage w))\<rparr>\<rparr>"
  using assms
  by (simp add: setItem_def setItem_try_def window_localStorage_def storage_setItem_def
      DOMString_def)

lemma getItem_stored:
  assumes "accessible (localStorage w)" and "map_of (items (localStorage w)) key = Some s"
    and "JSON_parse s = Inr v"
  shows "getItem JSON_parse key w = (Some v, w)"
  using assms
  by (simp add: getItem_def getItem_try_def window_localStorage_def storage_getItem_def)

lemma getItem_missing:
  assumes "map_of (items (localStorage w)) key = None"
  shows "fst (getItem JSON_parse key w) = None"
  using assms
  by (simp add: getItem_def getItem_try_def window_localStorage_def storage_getItem_def)

lemma getItem_unparseable:
  assumes "accessible (localStorage w)" and "map_of (items (localStorage w)) key = Some s"
    and "JSON_parse s = Inl e"
  shows "getItem JSON_parse key w = (None, w\<lparr>console := console w @ [ConsoleLog e]\<rparr>)"
  using assms
  by (simp add: getItem_def getItem_try_def window_localStorage_def storage_getItem_def)

lemma getItem_denied:
  assumes "\<not> accessible (localStorage w)"
  shows "getItem JSON_parse key w = (None, w\<lparr>console := console w @ [ConsoleLog SecurityError]\<rparr>)"
  using assms by (simp add: getItem_def getItem_try_def window_localStorage_def)

lemma getItem_unparseable_logged:
  assumes "map_of (items (localStorage w)) key = Some s" and "JSON_parse s = Inl e"
  shows "getItem JSON_parse key w =
     (None, w\<lparr>console := console w @
        [ConsoleLog (if accessible (localStorage w) then e else SecurityError)]\<rparr>)"
  using assms getItem_unparseable [of w key s JSON_parse e] getItem_denied [of w JSON_parse key]
  by (cases "accessible (localStorage w)") simp_all

lemma setItem_failed:
  "setItem_try JSON_stringify key v w = Inl e \<Longrightarrow>
   setItem JSON_stringify key v w = w\<lparr>console := console w @ [ConsoleLog e]\<rparr>"
  by (simp add: setItem_def)

lemma removeItem_failed:
  "removeItem_try key w = Inl e \<Longrightarrow>
   removeItem key w = w\<lparr>console := console w @ [ConsoleLog e]\<rparr>"
  by (simp add: removeItem_def)

lemma removeItem_denied:
  assumes "\<not> accessible (localStorage w)"
  shows "removeItem key w = w\<lparr>console := console w @ [ConsoleLog SecurityError]\<rparr>"
  using assms by (simp add: removeItem_def removeItem_try_def window_localStorage_def)

lemma removeItem_allowed:
  assumes "accessible (localStorage w)"
  shows "removeItem key w =
     w\<lparr>localStorage := (localStorage w)\<lparr>items := AList.delete key (items (localStorage w))\<rparr>\<rparr>"
  using assms
  by (simp add: removeItem_def removeItem_try_def window_localStorage_def storage_removeItem_def)

lemma getItem_after_removeItem: "fst (getItem JSON_parse key (removeItem key w)) = None"
proof (cases "accessible (localStorage w)")
  case True
  then show ?thesis
    by (simp add: removeItem_allowed getItem_missing map_of_delete_same)
next
  case False
  then show ?thesis
    by (simp add: removeItem_denied getItem_denied)
qed

lemma getItem_after_setItem:
  assumes "JSON_stringify v = Inr (Some s)" and "JSON_parse s = Inr v"
    and "accessible (localStorage w)"
    and "used (AList.update key s (items (localStorage w))) \<le> quota (localStorage w)"
  shows "fst (getItem JSON_parse key (setItem JSON_stringify key v w)) = Some v"
proof -
  let ?w = "w\<lparr>localStorage := (localStorage w)\<lparr>items := AList.update key s (items (localStorage w))\<rparr>\<rparr>"
  have "getItem JSON_parse key ?w = (Some v, ?w)"
    by (rule getItem_stored [where s = s]) (simp_all add: assms map_of_update_same)
  then show ?thesis
    using setItem_accepted [of JSON_stringify v s w key] assms by simp
qed

subsection \<open>useSessionStorage\<close>

lemma setSessionStorageItem_accepted:
  assumes "JSON_stringify v = Inr (Some s)" and "accessible (sessionStorage w)"
    and "used (AList.update key s (items (sessionStorage w))) \<le> quota (sessionStorage w)"
  shows "setSessionStorageItem JSON_stringify key v w =
     w\<lparr>sessionStorage := (sessionStorage w)\<lparr>items := AList.update key s (items (sessionStorage w))\<rparr>\<rparr>"
  using assms
  by (simp add: setSessionStorageItem_def setSessionStorageItem_try_def window_sessionStorage_def
      storage_setItem_def DOMString_def)

lemma getSessionStorageItem_stored:
  assumes "accessible (sessionStorage w)" and "map_of (items (sessionStorage w)) key = Some s"
    and "JSON_parse s = Inr v"
  shows "getSessionStorageItem JSON_parse key w = (Some v, w)"
  using assms
  by (simp add: getSessionStorageItem_def getSessionStorageItem_try_def window_sessionStorage_def
      storage_getItem_def)

lemma getSessionStorageItem_missing:
  assumes "map_of (items (sessionStorage w)) key = None"
  shows "fst (getSessionStorageItem JSON_parse key w) = None"
  using assms
  by (simp add: getSessionStorageItem_def getSessionStorageItem_try_def window_sessionStorage_def
      storage_getItem_def)

lemma getSessionStorageItem_unparseable:
  assumes "accessible (sessionStorage w)" and "map_of (items (sessionStorage w)) key = Some s"
    and "JSON_parse s = Inl e"
  shows "getSessionStorageItem JSON_parse key w =
     (None, w\<lparr>console := console w @ [ConsoleError e]\<rparr>)"
  using assms
  by (simp add: getSessionStorageItem_def getSessionStorageItem_try_def window_sessionStorage_def
      storage_getItem_def)

lemma getSessionStorageItem_denied:
  assumes "\<not> accessible (sessionStorage w)"
  shows "getSessionStorageItem JSON_parse key w =
     (None, w\<lparr>console := console w @ [ConsoleError SecurityError]\<rparr>)"
  using assms
  by (simp add: getSessionStorageItem_def getSessionStorageItem_try_def window_sessionStorage_def)

lemma getSessionStorageItem_unparseable_logged:
  assumes "map_of (items (sessionStorage w)) key = Some s" and "JSON_parse s = Inl e"
  shows "getSessionStorageItem JSON_parse key w =
     (None, w\<lparr>console := console w @
        [ConsoleError (if accessible (sessionStorage w) then e else SecurityError)]\<rparr>)"
  using assms getSessionStorageItem_unparseable [of w key s JSON_parse e]
    getSessionStorageItem_denied [of w JSON_parse key]
  by (cases "accessible (sessionStorage w)") simp_all

lemma setSessionStorageItem_failed:
  "setSessionStorageItem_try JSON_stringify key v w = Inl e \<Longrightarrow>
   setSessionStorageItem JSON_stringify key v w = w\<lparr>console := console w @ [ConsoleError e]\<rparr>"
  by (simp add: setSessionStorageItem_def)

lemma removeSessionStorageItem_failed:
  "removeSessionStorageItem_try key w = Inl e \<Longrightarrow>
   removeSessionStorageItem key w = w\<lparr>console := console w @ [ConsoleError e]\<rparr>"
  by (simp add: removeSessionStorageItem_def)

lemma removeSessionStorageItem_denied:
  assumes "\<not> accessible (sessionStorage w)"
  shows "removeSessionStorageItem key w =
     w\<lparr>console := console w @ [ConsoleError SecurityError]\<rparr>"
  using assms
  by (simp add: removeSessionStorageItem_def removeSessionStorageItem_try_def
      window_sessionStorage_def)

lemma removeSessionStorageItem_allowed:
  assumes "accessible (sessionStorage w)"
  shows "removeSessionStorageItem key w =
     w\<lparr>sessionStorage := (sessionStorage w)\<lparr>items := AList.delete key (items (sessionStorage w))\<rparr>\<rparr>"
  using assms
  by (simp add: removeSessionStorageItem_def removeSessionStorageItem_try_def
      window_sessionStorage_def storage_removeItem_def)

lemma getSessionStorageItem_after_remove:
  "fst (getSessionStorageItem JSON_parse key (removeSessionStorageItem key w)) = None"
proof (cases "accessible (sessionStorage w)")
  case True
  then show ?thesis
    by (simp add: removeSessionStorageItem_allowed getSessionStorageItem_missing map_of_delete_same)
next
  case False
  then show ?thesis
    by (simp add: removeSessionStorageItem_denied getSessionStorageItem_denied)
qed

lemma getSessionStorageItem_after_set:
  assumes "JSON_stringify v = Inr (Some s)" and "JSON_parse s = Inr v"
    and "accessible (sessionStorage w)"
    and "used (AList.update key s (items (sessionStorage w))) \<le> quota (sessionStorage w)"
  shows "fst (getSessionStorageItem JSON_parse key (setSessionStorageItem JSON_stringify key v w))
     = Some v"
proof -
  let ?w = "w\<lparr>sessionStorage := (sessionStorage w)\<lparr>items := AList.update key s (items (sessionStorage w))\<rparr>\<rparr>"
  have "getSessionStorageItem JSON_parse key ?w = (Some v, ?w)"
    by (rule getSessionStorageItem_stored [where s = s]) (simp_all add: assms map_of_update_same)
  then show ?thesis
    using setSessionStorageItem_accepted [of JSON_stringify v s w key] assms by simp
qed

lemmas storage_eval = setItem_def setItem_try_def getItem_def getItem_try_def removeItem_def
  removeItem_try_def setSessionStorageItem_def setSessionStorageItem_try_def
  getSessionStorageItem_def getSessionStorageItem_try_def removeSessionStorageItem_def
  removeSessionStorageItem_try_def window_localStorage_def window_sessionStorage_def
  storage_getItem_def storage_setItem_def storage_removeItem_def DOMString_def used_def
  demo_stringify_def demo_parse_def demo_area_def demo_browser_def full_browser_def
  denied_browser_def

section \<open>The claims about useEventListener\<close>

text \<open>
  C1, as the specification states it: with an element ref that is supplied but currently
  empty, nothing is attached and window is not used. The code evaluates
  \<^verbatim>\<open>element?.current ?? window\<close>, and \<^verbatim>\<open>null ?? window\<close> is window: on the sample page,
  ref 0 is empty and the first render adds the listener to window.
\<close>

theorem empty_ref_not_skipped_counterexample:
  "demo_refs 0 = None \<and>
   map_sum id (calls \<circ> snd)
     (run [Render (Props ''resize'' 7 (Some 0) OptUndefined)] (fresh demo_refs demo_options))
     = Inr [AddCall Window ''resize'' (Listener 1 0) OptUndefined]"
  by (simp add: demo_eval Let_def)

text \<open>
  C1, amended: when the element ref is supplied and its current value is null, the target
  resolved is the global window: the first render attaches the listener to window, and
  the cleanup function it keeps is for window.
\<close>

theorem empty_ref_falls_back_to_window:
  assumes "refs p r = None"
  shows "targetElement (Some r) p = Window \<and>
   (\<exists>st p'. step (Render (Props n h (Some r) opt)) (None, p) = Inr (Some st, p') \<and>
     cleanup st = Some (Window, n, Listener (Suc (next_addr p)) (next_addr p), opt) \<and>
     calls p' = calls p @ [AddCall Window n (Listener (Suc (next_addr p)) (next_addr p)) opt])"
proof -
  have t: "targetElement (Some r) p = Window"
    using assms by (simp add: targetElement_def)
  obtain st p' where m: "useEventListener_mount (Props n h (Some r) opt) p = Inr (st, p')"
     "cleanup st = (if has_addEventListener (targetElement (Some r) p)
          then Some (targetElement (Some r) p, n, Listener (Suc (next_addr p)) (next_addr p), opt)
          else None)"
     "calls p' = calls p
        @ (if has_addEventListener (targetElement (Some r) p)
           then [AddCall (targetElement (Some r) p) n (Listener (Suc (next_addr p)) (next_addr p)) opt]
           else [])"
    using mount_calls [of n h "Some r" opt p] by blast
  then show ?thesis using t by simp
qed

theorem empty_ref_falls_back_to_window_witness:
  "refs (blank demo_refs demo_options) 0 = None \<and>
   targetElement (Some 0) (blank demo_refs demo_options) = Window \<and>
   (\<exists>st p'. step (Render (Props ''resize'' 7 (Some 0) (OptObject 4))) (None, blank demo_refs demo_options)
        = Inr (Some st, p') \<and>
      cleanup st = Some (Window, ''resize'', Listener 1 0, OptObject 4) \<and>
      calls p' = [AddCall Window ''resize'' (Listener 1 0) (OptObject 4)])"
proof -
  have h: "refs (blank demo_refs demo_options) 0 = None"
    by (simp add: blank_def demo_refs_def)
  have n: "next_addr (blank demo_refs demo_options) = 0" "calls (blank demo_refs demo_options) = []"
    by (simp_all add: blank_def)
  show ?thesis
    using h empty_ref_falls_back_to_window [OF h, of "''resize''" 7 "OptObject 4"]
    by (simp only: n append_Nil One_nat_def simp_thms)
qed

text \<open>
  C2: a component is rendered with handlers \<open>h1, ..., hN\<close> while eventName, element and
  options stay the same, on a target that takes listeners. After the last render the
  handler ref holds \<open>hN\<close>, and an event of that name fired at the target invokes \<open>hN\<close>
  and nothing else: not \<open>h1\<close>, the handler in place when the listener was added.
\<close>

theorem latest_handler_is_invoked:
  assumes "has_addEventListener (targetElement el (blank rs os))"
  shows "\<exists>st p.
     run (map (\<lambda>h. Render (Props n h el opt)) (h1 # hs)) (fresh rs os) = Inr (Some st, p) \<and>
     handlerRefs p (savedHandler st) = last (h1 # hs) \<and>
     invoked (dispatchEvent (targetElement el (blank rs os)) n ev p) = [(last (h1 # hs), ev)]"
proof -
  let ?t = "targetElement el (blank rs os)"
  let ?st = "\<lparr>savedHandler = 0, handler_deps = h1, listener_deps = (n, el, opt),
                 cleanup = Some (?t, n, Listener 1 0, opt)\<rparr>"
  let ?p = "\<lparr>refs = rs, optionObjects = os, handlerRefs = (\<lambda>_. 0)(0 := h1), next_addr = 2,
           calls = [AddCall ?t n (Listener 1 0) opt],
           listeners = [Registration ?t n (Listener 1 0)
                          (capture_of (blank rs os) opt) (once_of (blank rs os) opt)],
           invoked = []\<rparr>"
  let ?st' = "?st\<lparr>handler_deps := last (h1 # hs)\<rparr>"
  let ?p' = "handler_effect 0 (last (h1 # hs)) ?p"
  have r: "run (map (\<lambda>h. Render (Props n h el opt)) (h1 # hs)) (fresh rs os) = Inr (Some ?st', ?p')"
    using mount_blank [OF assms, of n h1 opt]
      run_renders_same [of ?st n el opt ?p hs]
    by simp
  have l: "listeners ?p' = [Registration ?t n (Listener 1 0)
                          (capture_of (blank rs os) opt) (once_of (blank rs os) opt)]"
    by (simp add: handler_effect_def)
  have d: "invoked (dispatchEvent ?t n ev ?p') = [(last (h1 # hs), ev)]"
    using dispatch_single [OF l, of ev] by (simp add: handler_effect_def)
  have s: "handlerRefs ?p' (savedHandler ?st') = last (h1 # hs)"
    by (simp add: handler_effect_def)
  show ?thesis
    using r d s by blast
qed

theorem latest_handler_is_invoked_witness:
  "has_addEventListener (targetElement (Some 1) (blank demo_refs demo_options)) \<and>
   (\<exists>st p. run [Render (Props ''click'' 7 (Some 1) OptUndefined),
                  Render (Props ''click'' 8 (Some 1) OptUndefined),
                  Render (Props ''click'' 9 (Some 1) OptUndefined)] (fresh demo_refs demo_options)
       = Inr (Some st, p) \<and>
     handlerRefs p (savedHandler st) = 9 \<and>
     invoked (dispatchEvent (Object 5 True) ''click'' 3 p) = [(9, 3)])"
proof -
  have h: "has_addEventListener (targetElement (Some 1) (blank demo_refs demo_options))"
    by (simp add: targetElement_def blank_def demo_refs_def)
  have t: "targetElement (Some 1) (blank demo_refs demo_options) = Object 5 True"
    by (simp add: targetElement_def blank_def demo_refs_def)
  show ?thesis
    using h latest_handler_is_invoked [OF h, of "''click''" OptUndefined 7 "[8, 9]" 3]
    by (simp only: t list.map last.simps list.simps if_False if_True simp_thms)
qed

text \<open>
  C3: for any number of renders with the same eventName, element and options and any
  handlers, on a target that takes listeners, the platform sees exactly one
  addEventListener call during the renders, and unmounting adds exactly one
  removeEventListener call, with the same four arguments.
\<close>

theorem same_tuple_one_add_one_remove:
  assumes "has_addEventListener (targetElement el (blank rs os))"
  shows "\<exists>st p p'.
     run (map (\<lambda>h. Render (Props n h el opt)) (h1 # hs)) (fresh rs os) = Inr (Some st, p) \<and>
     calls p = [AddCall (targetElement el (blank rs os)) n (Listener 1 0) opt] \<and>
     run (map (\<lambda>h. Render (Props n h el opt)) (h1 # hs) @ [Unmount]) (fresh rs os)
       = Inr (None, p') \<and>
     calls p' = [AddCall (targetElement el (blank rs os)) n (Listener 1 0) opt,
                 RemoveCall (targetElement el (blank rs os)) n (Listener 1 0) opt]"
proof -
  let ?t = "targetElement el (blank rs os)"
  let ?st = "\<lparr>savedHandler = 0, handler_deps = h1, listener_deps = (n, el, opt),
                 cleanup = Some (?t, n, Listener 1 0, opt)\<rparr>"
  let ?p = "\<lparr>refs = rs, optionObjects = os, handlerRefs = (\<lambda>_. 0)(0 := h1), next_addr = 2,
           calls = [AddCall ?t n (Listener 1 0) opt],
           listeners = [Registration ?t n (Listener 1 0)
                          (capture_of (blank rs os) opt) (once_of (blank rs os) opt)],
           invoked = []\<rparr>"
  let ?st' = "?st\<lparr>handler_deps := last (h1 # hs)\<rparr>"
  let ?p' = "handler_effect 0 (last (h1 # hs)) ?p"
  have r: "run (map (\<lambda>h. Render (Props n h el opt)) (h1 # hs)) (fresh rs os) = Inr (Some ?st', ?p')"
    using mount_blank [OF assms, of n h1 opt]
      run_renders_same [of ?st n el opt ?p hs]
    by simp
  define q where "q = ?p'\<lparr>calls := calls ?p' @ [RemoveCall ?t n (Listener 1 0) opt],
            listeners := unregister ?t n (Listener 1 0) (capture_of ?p' opt) (listeners ?p')\<rparr>"
  have u: "step Unmount (Some ?st', ?p') = Inr (None, q)"
    using assms run_cleanup_Some [of ?t n "Listener 1 0" opt ?p']
    by (simp add: useEventListener_unmount_def q_def)
  have r2: "run (map (\<lambda>h. Render (Props n h el opt)) (h1 # hs) @ [Unmount]) (fresh rs os)
      = Inr (None, q)"
    unfolding run_append r by (simp only: sum.case run.simps u)
  have c1: "calls ?p' = [AddCall ?t n (Listener 1 0) opt]"
    by (simp add: handler_effect_def)
  have c2: "calls q = [AddCall ?t n (Listener 1 0) opt, RemoveCall ?t n (Listener 1 0) opt]"
    by (simp add: q_def handler_effect_def)
  show ?thesis
    using r r2 c1 c2 by blast
qed

theorem same_tuple_one_add_one_remove_witness:
  "has_addEventListener (targetElement None (blank demo_refs demo_options)) \<and>
   (\<exists>st p p'.
     run (map (\<lambda>h. Render (Props ''resize'' h None (OptBoolean True))) (7 # [8, 7, 9]))
       (fresh demo_refs demo_options) = Inr (Some st, p) \<and>
     calls p = [AddCall (targetElement None (blank demo_refs demo_options)) ''resize''
                  (Listener 1 0) (OptBoolean True)] \<and>
     run (map (\<lambda>h. Render (Props ''resize'' h None (OptBoolean True))) (7 # [8, 7, 9]) @ [Unmount])
       (fresh demo_refs demo_options) = Inr (None, p') \<and>
     calls p' = [AddCall (targetElement None (blank demo_refs demo_options)) ''resize''
                   (Listener 1 0) (OptBoolean True),
                 RemoveCall (targetElement None (blank demo_refs demo_options)) ''resize''
                   (Listener 1 0) (OptBoolean True)])"
proof -
  have h: "has_addEventListener (targetElement None (blank demo_refs demo_options))"
    by (simp add: targetElement_def)
  show ?thesis
    by (rule conjI [OF h same_tuple_one_add_one_remove [OF h]])
qed

text \<open>
  C4: take any history ending in a render with \<open>(n, el, opt)\<close> that leaves a listener
  attached. A render whose eventName, element or options differ first calls
  removeEventListener and only then addEventListener; the target, event name, listener
  and options of the removal are those of the most recent addEventListener call, which
  is the last entry of the log before the render.
\<close>

theorem rebind_removes_then_adds:
  assumes "run (acts @ [Render (Props n h el opt)]) (fresh rs os) = Inr (Some st, p)"
    and "cleanup st = Some (t, n0, l, opt0)"
    and "(n', el', opt') \<noteq> (n, el, opt)"
  shows "\<exists>st' p'. step (Render (Props n' h' el' opt')) (Some st, p) = Inr (Some st', p') \<and>
     last (calls p) = AddCall t n0 l opt0 \<and>
     calls p' = calls p @ RemoveCall t n0 l opt0 #
       (if has_addEventListener (targetElement el' p)
        then [AddCall (targetElement el' p) n' (Listener (next_addr p) (savedHandler st)) opt']
        else [])"
proof -
  obtain s1 where s1: "run (acts @ [Render (Props n h el opt)]) (fresh rs os) = Inr s1" "consistent s1"
    using consistent_run [OF consistent_fresh] by blast
  have con: "consistent (Some st, p)" using s1 assms(1) by simp
  have tr: "track (calls p) None = Some (Some (t, n0, l, opt0))" and at: "attachable (cleanup st)"
    using con assms(2) by (simp_all add: consistent_def attached_def)
  have deps: "listener_deps st = (n, el, opt)"
    using run_snoc_Render_deps [OF assms(1)] by simp
  have last: "last (calls p) = AddCall t n0 l opt0"
    using track_last [OF tr] track_nonempty [OF tr] by simp
  obtain st' p' where u: "useEventListener_update (Props n' h' el' opt') st p = Inr (st', p')"
    "calls p' = calls p
      @ (case cleanup st of None \<Rightarrow> [] | Some (t, n, l, opt) \<Rightarrow> [RemoveCall t n l opt])
      @ (if has_addEventListener (targetElement el' p)
         then [AddCall (targetElement el' p) n' (Listener (next_addr p) (savedHandler st)) opt']
         else [])"
    using update_changed [of st n' el' opt', OF _ at, of h' p] deps assms(3) by auto
  show ?thesis
    using u last assms(2) by simp
qed

theorem rebind_removes_then_adds_witness:
  "run ([] @ [Render (Props ''click'' 7 (Some 1) OptUndefined)]) (fresh demo_refs demo_options)
     = Inr (Some \<lparr>savedHandler = 0, handler_deps = 7, listener_deps = (''click'', Some 1, OptUndefined),
                   cleanup = Some (Object 5 True, ''click'', Listener 1 0, OptUndefined)\<rparr>,
            \<lparr>refs = demo_refs, optionObjects = demo_options, handlerRefs = (\<lambda>_. 0)(0 := 7),
             next_addr = 2,
             calls = [AddCall (Object 5 True) ''click'' (Listener 1 0) OptUndefined],
             listeners = [Registration (Object 5 True) ''click'' (Listener 1 0) False False],
             invoked = []\<rparr>) \<and>
   (''keyup'', None, OptUndefined) \<noteq> (''click'', Some (1::nat), OptUndefined) \<and>
   (\<exists>st' p'. step (Render (Props ''keyup'' 7 None OptUndefined))
        (Some \<lparr>savedHandler = 0, handler_deps = 7, listener_deps = (''click'', Some 1, OptUndefined),
                   cleanup = Some (Object 5 True, ''click'', Listener 1 0, OptUndefined)\<rparr>,
            \<lparr>refs = demo_refs, optionObjects = demo_options, handlerRefs = (\<lambda>_. 0)(0 := 7),
             next_addr = 2,
             calls = [AddCall (Object 5 True) ''click'' (Listener 1 0) OptUndefined],
             listeners = [Registration (Object 5 True) ''click'' (Listener 1 0) False False],
             invoked = []\<rparr>) = Inr (Some st', p') \<and>
      calls p' = [AddCall (Object 5 True) ''click'' (Listener 1 0) OptUndefined,
                  RemoveCall (Object 5 True) ''click'' (Listener 1 0) OptUndefined,
                  AddCall Window ''keyup'' (Listener 2 0) OptUndefined])"
proof -
  let ?st = "\<lparr>savedHandler = 0, handler_deps = 7, listener_deps = (''click'', Some 1, OptUndefined),
                   cleanup = Some (Object 5 True, ''click'', Listener 1 0, OptUndefined)\<rparr>"
  let ?p = "\<lparr>refs = demo_refs, optionObjects = demo_options, handlerRefs = (\<lambda>_. 0)(0 := 7),
             next_addr = 2,
             calls = [AddCall (Object 5 True) ''click'' (Listener 1 0) OptUndefined],
             listeners = [Registration (Object 5 True) ''click'' (Listener 1 0) False False],
             invoked = []\<rparr>"
  have r: "run ([] @ [Render (Props ''click'' 7 (Some 1) OptUndefined)]) (fresh demo_refs demo_options)
     = Inr (Some ?st, ?p)"
    by (simp add: demo_eval Let_def)
  have c: "cleanup ?st = Some (Object 5 True, ''click'', Listener 1 0, OptUndefined)"
    by simp
  have d: "(''keyup'', None, OptUndefined) \<noteq> (''click'', Some (1::nat), OptUndefined)"
    by simp
  have t: "targetElement None ?p = Window" "has_addEventListener Window" "next_addr ?p = 2"
     "savedHandler ?st = 0"
     "calls ?p = [AddCall (Object 5 True) ''click'' (Listener 1 0) OptUndefined]"
    by (simp_all add: targetElement_def)
  show ?thesis
    using r d rebind_removes_then_adds [OF r c d, of 7]
    by (simp only: t if_True append.simps simp_thms) blast
qed

text \<open>
  C5: when the resolved target has no addEventListener, the first render makes no
  platform call, returns without raising and keeps no cleanup function; unmounting
  afterwards makes no platform call either and does not raise.
\<close>

theorem unattachable_target_is_skipped:
  assumes "\<not> has_addEventListener (targetElement el p)"
  shows "\<exists>st p'. step (Render (Props n h el opt)) (None, p) = Inr (Some st, p') \<and>
     cleanup st = None \<and> calls p' = calls p \<and> listeners p' = listeners p \<and>
     step Unmount (Some st, p') = Inr (None, p')"
proof -
  have t: "\<not> has_addEventListener
        (targetElement el (handler_effect (next_addr p) h (snd (useRef h p))))"
    using assms targetElement_refs [of "handler_effect (next_addr p) h (snd (useRef h p))" p el]
    by (simp add: handler_effect_def useRef_def)
  show ?thesis
    using listener_effect_skip [OF t]
    by (simp add: useRef_def handler_effect_def useEventListener_unmount_def)
qed

theorem unattachable_target_is_skipped_witness:
  "\<not> has_addEventListener (targetElement (Some 2) (blank demo_refs demo_options)) \<and>
   (\<exists>st p'. step (Render (Props ''change'' 7 (Some 2) OptUndefined)) (None, blank demo_refs demo_options)
        = Inr (Some st, p') \<and>
      cleanup st = None \<and> calls p' = [] \<and> listeners p' = [] \<and>
      step Unmount (Some st, p') = Inr (None, p'))"
proof -
  have h: "\<not> has_addEventListener (targetElement (Some 2) (blank demo_refs demo_options))"
    by (simp add: targetElement_def blank_def demo_refs_def)
  have n: "calls (blank demo_refs demo_options) = []" "listeners (blank demo_refs demo_options) = []"
    by (simp_all add: blank_def)
  show ?thesis
    using h unattachable_target_is_skipped [OF h, of "''change''" 7 OptUndefined]
    by (simp only: n simp_thms)
qed

text \<open>
  C6: whatever happens on a fresh page (renders with any arguments, changes to refs and
  options objects, events, unmounts and remounts), once the component is unmounted the
  log of platform calls is made of adjacent pairs, an addEventListener followed by the
  removeEventListener with the same arguments: as many removals as additions, and no
  removal without its addition. No step raises.
\<close>

theorem teardown_balances_calls:
  "\<exists>p. run (acts @ [Unmount]) (fresh rs os) = Inr (None, p) \<and>
        track (calls p) None = Some None \<and>
        count_adds (calls p) = count_removes (calls p)"
proof -
  obtain s1 where s1: "run acts (fresh rs os) = Inr s1" "consistent s1"
    using consistent_run [OF consistent_fresh] by blast
  obtain p where p: "step Unmount s1 = Inr (None, p)" "consistent (None, p)"
    using consistent_Unmount [of "fst s1" "snd s1"] s1(2) by auto
  have tr: "track (calls p) None = Some None"
    using p(2) by (simp add: consistent_def attached_def)
  have "count_adds (calls p) = count_removes (calls p)"
    using track_counts [OF tr] by simp
  then show ?thesis
    using s1(1) p(1) tr by (auto simp: run_append)
qed

theorem teardown_balances_calls_witness:
  "\<exists>p. run ([Render (Props ''click'' 7 (Some 1) (OptObject 3)),
              Render (Props ''click'' 8 (Some 1) (OptObject 4)),
              Render (Props ''click'' 8 (Some 2) (OptObject 4)),
              Unmount,
              Render (Props ''resize'' 9 None OptUndefined)] @ [Unmount])
          (fresh demo_refs demo_options) = Inr (None, p) \<and>
        track (calls p) None = Some None \<and>
        count_adds (calls p) = count_removes (calls p)"
  by (rule teardown_balances_calls)

text \<open>
  C9: after any history ending in a render with element ref \<open>r\<close>, changing
  \<^verbatim>\<open>r.current\<close> and rendering again with the same eventName, the same ref object and
  the same options (the handler may differ) makes no platform call: the log and the
  platform's listener list are unchanged and the cleanup function kept is still the one
  for the earlier target.
\<close>

theorem changed_current_does_not_rebind:
  assumes "run (acts @ [Render (Props n h1 (Some r) opt)]) (fresh rs os) = Inr (Some st, p)"
  shows "\<exists>st' p'. run [SetCurrent r v, Render (Props n h2 (Some r) opt)] (Some st, p)
       = Inr (Some st', p') \<and>
     refs p' r = v \<and> calls p' = calls p \<and> listeners p' = listeners p \<and>
     cleanup st' = cleanup st"
proof -
  have deps: "listener_deps st = (n, Some r, opt)"
    using run_snoc_Render_deps [OF assms] by simp
  show ?thesis
    using deps by (simp add: handler_effect_def)
qed

theorem changed_current_does_not_rebind_witness:
  "run ([] @ [Render (Props ''click'' 7 (Some 1) OptUndefined)]) (fresh demo_refs demo_options)
     = Inr (Some \<lparr>savedHandler = 0, handler_deps = 7, listener_deps = (''click'', Some 1, OptUndefined),
                   cleanup = Some (Object 5 True, ''click'', Listener 1 0, OptUndefined)\<rparr>,
            \<lparr>refs = demo_refs, optionObjects = demo_options, handlerRefs = (\<lambda>_. 0)(0 := 7),
             next_addr = 2,
             calls = [AddCall (Object 5 True) ''click'' (Listener 1 0) OptUndefined],
             listeners = [Registration (Object 5 True) ''click'' (Listener 1 0) False False],
             invoked = []\<rparr>) \<and>
   (\<exists>st' p'. run [SetCurrent 1 (Some (Object 8 True)), Render (Props ''click'' 9 (Some 1) OptUndefined)]
        (Some \<lparr>savedHandler = 0, handler_deps = 7, listener_deps = (''click'', Some 1, OptUndefined),
                   cleanup = Some (Object 5 True, ''click'', Listener 1 0, OptUndefined)\<rparr>,
            \<lparr>refs = demo_refs, optionObjects = demo_options, handlerRefs = (\<lambda>_. 0)(0 := 7),
             next_addr = 2,
             calls = [AddCall (Object 5 True) ''click'' (Listener 1 0) OptUndefined],
             listeners = [Registration (Object 5 True) ''click'' (Listener 1 0) False False],
             invoked = []\<rparr>) = Inr (Some st', p') \<and>
      refs p' 1 = Some (Object 8 True) \<and>
      calls p' = [AddCall (Object 5 True) ''click'' (Listener 1 0) OptUndefined] \<and>
      listeners p' = [Registration (Object 5 True) ''click'' (Listener 1 0) False False] \<and>
      cleanup st' = Some (Object 5 True, ''click'', Listener 1 0, OptUndefined))"
proof -
  let ?st = "\<lparr>savedHandler = 0, handler_deps = 7, listener_deps = (''click'', Some 1, OptUndefined),
                   cleanup = Some (Object 5 True, ''click'', Listener 1 0, OptUndefined)\<rparr>"
  let ?p = "\<lparr>refs = demo_refs, optionObjects = demo_options, handlerRefs = (\<lambda>_. 0)(0 := 7),
             next_addr = 2,
             calls = [AddCall (Object 5 True) ''click'' (Listener 1 0) OptUndefined],
             listeners = [Registration (Object 5 True) ''click'' (Listener 1 0) False False],
             invoked = []\<rparr>"
  have r: "run ([] @ [Render (Props ''click'' 7 (Some 1) OptUndefined)]) (fresh demo_refs demo_options)
     = Inr (Some ?st, ?p)"
    by (simp add: demo_eval Let_def)
  have t: "calls ?p = [AddCall (Object 5 True) ''click'' (Listener 1 0) OptUndefined]"
    "listeners ?p = [Registration (Object 5 True) ''click'' (Listener 1 0) False False]"
    "cleanup ?st = Some (Object 5 True, ''click'', Listener 1 0, OptUndefined)"
    by simp_all
  show ?thesis
    using r changed_current_does_not_rebind [OF r, of "Some (Object 8 True)" 9]
    by (simp only: t simp_thms)
qed

text \<open>
  C10: the options argument is compared by identity. When each render passes an options
  object at an address other than the previous one, on a target that takes listeners,
  every render after the first removes the listener and adds a new one: after \<open>k\<close> such
  renders the log holds \<open>k\<close> removals and \<open>k + 1\<close> additions, each removal right after
  the addition it undoes, and the listener left attached is on the same target, for the
  same event name, with the options object of the last render. The contents of the
  objects play no part; on the sample page they are all equal.
\<close>

theorem fresh_options_rebind_every_render:
  assumes "has_addEventListener (targetElement el (blank rs os))"
    and "fresh_each a (map snd hbs)"
  shows "\<exists>st p l.
     run (Render (Props n h el (OptObject a))
          # map (\<lambda>(h, b). Render (Props n h el (OptObject b))) hbs) (fresh rs os)
       = Inr (Some st, p) \<and>
     count_adds (calls p) = Suc (length hbs) \<and>
     count_removes (calls p) = length hbs \<and>
     track (calls p) None =
       Some (Some (targetElement el (blank rs os), n, l, OptObject (last (a # map snd hbs))))"
proof -
  let ?t = "targetElement el (blank rs os)"
  let ?st = "\<lparr>savedHandler = 0, handler_deps = h, listener_deps = (n, el, OptObject a),
                 cleanup = Some (?t, n, Listener 1 0, OptObject a)\<rparr>"
  let ?p = "\<lparr>refs = rs, optionObjects = os, handlerRefs = (\<lambda>_. 0)(0 := h), next_addr = 2,
           calls = [AddCall ?t n (Listener 1 0) (OptObject a)],
           listeners = [Registration ?t n (Listener 1 0)
                          (capture_of (blank rs os) (OptObject a)) (once_of (blank rs os) (OptObject a))],
           invoked = []\<rparr>"
  have m: "step (Render (Props n h el (OptObject a))) (fresh rs os) = Inr (Some ?st, ?p)"
    using mount_blank [OF assms(1), of n h "OptObject a"] by simp
  have con: "consistent (Some ?st, ?p)"
    using consistent_step [OF consistent_fresh, of "Render (Props n h el (OptObject a))" rs os] m
    by simp
  have t: "targetElement el ?p = ?t"
    by (rule targetElement_refs) (simp add: blank_def)
  have c: "cleanup ?st = Some (targetElement el ?p, n, Listener 1 0, OptObject a)"
    using t by simp
  have ha: "has_addEventListener (targetElement el ?p)"
    using t assms(1) by simp
  obtain st' p' l' where r:
    "run (map (\<lambda>(h, b). Render (Props n h el (OptObject b))) hbs) (Some ?st, ?p) = Inr (Some st', p')"
    "count_adds (calls p') = count_adds (calls ?p) + length hbs"
    "count_removes (calls p') = count_removes (calls ?p) + length hbs"
    "track (calls p') None =
       Some (Some (targetElement el ?p, n, l', OptObject (last (a # map snd hbs))))"
    using rebind_each [OF con c _ ha assms(2)] by auto
  have "run (Render (Props n h el (OptObject a))
          # map (\<lambda>(h, b). Render (Props n h el (OptObject b))) hbs) (fresh rs os)
       = Inr (Some st', p')"
    using m r(1) by simp
  moreover have "count_adds (calls p') = Suc (length hbs)" "count_removes (calls p') = length hbs"
    using r(2,3) by (simp_all add: count_adds_def count_removes_def)
  moreover have "track (calls p') None =
       Some (Some (?t, n, l', OptObject (last (a # map snd hbs))))"
    using r(4) t by simp
  ultimately show ?thesis by blast
qed

theorem fresh_options_rebind_every_render_witness:
  "has_addEventListener (targetElement (Some 1) (blank demo_refs demo_options)) \<and>
   fresh_each 3 (map snd [(7::nat, 4), (7, 5), (7, 6)]) \<and>
   demo_options 3 = demo_options 4 \<and> demo_options 4 = demo_options 5 \<and>
   demo_options 5 = demo_options 6 \<and>
   (\<exists>st p l.
     run [Render (Props ''click'' 7 (Some 1) (OptObject 3)),
          Render (Props ''click'' 7 (Some 1) (OptObject 4)),
          Render (Props ''click'' 7 (Some 1) (OptObject 5)),
          Render (Props ''click'' 7 (Some 1) (OptObject 6))]
        (fresh demo_refs demo_options)
       = Inr (Some st, p) \<and>
     count_adds (calls p) = 4 \<and>
     count_removes (calls p) = 3 \<and>
     track (calls p) None = Some (Some (Object 5 True, ''click'', l, OptObject 6)))"
proof -
  have h: "has_addEventListener (targetElement (Some 1) (blank demo_refs demo_options))"
    by (simp add: targetElement_def blank_def demo_refs_def)
  have f: "fresh_each 3 (map snd [(7::nat, 4), (7, 5), (7, 6)])"
    by simp
  have e: "demo_options 3 = demo_options 4 \<and> demo_options 4 = demo_options 5 \<and>
     demo_options 5 = demo_options 6"
    by (simp add: demo_options_def)
  have t: "targetElement (Some 1) (blank demo_refs demo_options) = Object 5 True"
    by (simp add: targetElement_def blank_def demo_refs_def)
  have m: "Render (Props ''click'' 7 (Some 1) (OptObject 3))
          # map (\<lambda>(h, b). Render (Props ''click'' h (Some 1) (OptObject b))) [(7, 4), (7, 5), (7, 6)]
     = [Render (Props ''click'' 7 (Some 1) (OptObject 3)),
          Render (Props ''click'' 7 (Some 1) (OptObject 4)),
          Render (Props ''click'' 7 (Some 1) (OptObject 5)),
          Render (Props ''click'' 7 (Some 1) (OptObject 6))]"
    by simp
  have n: "Suc 3 = (4::nat)"
    "length [(7::nat, 4::nat), (7, 5), (7, 6)] = 3"
    "last (3 # map snd [(7::nat, 4::nat), (7, 5), (7, 6)]) = 6"
    by simp_all
  show ?thesis
    using h f e fresh_options_rebind_every_render [OF h f, of "''click''" 7]
    unfolding m n(2,3) n(1) t by blast
qed

section \<open>The claims about the storage hooks\<close>

text \<open>
  C7, as the specification states it: for every serializable value, the setter followed by
  the getter gives the value back. The setter swallows a refused write: when the storage
  area has no room left, the value \<^verbatim>\<open>true\<close> (which JSON writes and reads back) is not
  stored, and the getter returns \<^verbatim>\<open>undefined\<close>; so for both hooks.
\<close>

theorem round_trip_fails_when_write_refused_counterexample:
  "demo_stringify True = Inr (Some ''true'') \<and> demo_parse ''true'' = Inr True \<and>
   fst (getItem demo_parse ''token'' (setItem demo_stringify ''token'' True full_browser)) = None \<and>
   fst (getSessionStorageItem demo_parse ''token''
          (setSessionStorageItem demo_stringify ''token'' True full_browser)) = None"
  by (simp add: storage_eval)

text \<open>
  C7, amended: let \<open>v\<close> be a value that \<^verbatim>\<open>JSON.stringify\<close> writes as \<open>s\<close> and
  \<^verbatim>\<open>JSON.parse\<close> reads back from \<open>s\<close>. For both hooks and every key: when the storage
  area is accessible and has room for the entry, the getter called after the setter
  returns \<open>v\<close>; and the getter called after the remover returns \<^verbatim>\<open>undefined\<close>, in any
  state of the browser.
\<close>

theorem storage_round_trip:
  assumes "JSON_stringify v = Inr (Some s)" and "JSON_parse s = Inr v"
  shows "(case useLocalStorage JSON_parse JSON_stringify key of
            (getter, setter, remover) \<Rightarrow>
              (accessible (localStorage w) \<and>
               used (AList.update key s (items (localStorage w))) \<le> quota (localStorage w)
                 \<longrightarrow> fst (getter (setter v w)) = Some v) \<and>
              fst (getter (remover w')) = None) \<and>
         (case useSessionStorage JSON_parse JSON_stringify key of
            (getter, setter, remover) \<Rightarrow>
              (accessible (sessionStorage w) \<and>
               used (AList.update key s (items (sessionStorage w))) \<le> quota (sessionStorage w)
                 \<longrightarrow> fst (getter (setter v w)) = Some v) \<and>
              fst (getter (remover w')) = None)"
  using assms
    getItem_after_setItem [where JSON_stringify = JSON_stringify and JSON_parse = JSON_parse
      and v = v and s = s and w = w and key = key]
    getSessionStorageItem_after_set [where JSON_stringify = JSON_stringify
      and JSON_parse = JSON_parse and v = v and s = s and w = w and key = key]
  by (simp add: useLocalStorage_def useSessionStorage_def getItem_after_removeItem
      getSessionStorageItem_after_remove)

theorem storage_round_trip_witness:
  "demo_stringify True = Inr (Some ''true'') \<and> demo_parse ''true'' = Inr True \<and>
   accessible (localStorage demo_browser) \<and>
   used (AList.update ''token'' ''true'' (items (localStorage demo_browser)))
     \<le> quota (localStorage demo_browser) \<and>
   accessible (sessionStorage demo_browser) \<and>
   used (AList.update ''token'' ''true'' (items (sessionStorage demo_browser)))
     \<le> quota (sessionStorage demo_browser) \<and>
   fst (getItem demo_parse ''token'' (setItem demo_stringify ''token'' True demo_browser))
     = Some True \<and>
   fst (getItem demo_parse ''token''
     (removeItem ''token'' (setItem demo_stringify ''token'' True demo_browser))) = None \<and>
   fst (getSessionStorageItem demo_parse ''token''
     (setSessionStorageItem demo_stringify ''token'' True demo_browser)) = Some True \<and>
   fst (getSessionStorageItem demo_parse ''token''
     (removeSessionStorageItem ''token''
        (setSessionStorageItem demo_stringify ''token'' True demo_browser))) = None"
proof -
  have h1: "demo_stringify True = Inr (Some ''true'')"
    by (simp add: demo_stringify_def)
  have h2: "demo_parse ''true'' = Inr True"
    by (simp add: demo_parse_def)
  have l: "accessible (localStorage demo_browser)"
    "used (AList.update ''token'' ''true'' (items (localStorage demo_browser)))
       \<le> quota (localStorage demo_browser)"
    by (simp_all add: demo_browser_def demo_area_def used_def)
  have s: "accessible (sessionStorage demo_browser)"
    "used (AList.update ''token'' ''true'' (items (sessionStorage demo_browser)))
       \<le> quota (sessionStorage demo_browser)"
    by (simp_all add: demo_browser_def demo_area_def used_def)
  have local: "fst (getItem demo_parse ''token'' (setItem demo_stringify ''token'' True demo_browser))
       = Some True"
    "fst (getItem demo_parse ''token''
       (removeItem ''token'' (setItem demo_stringify ''token'' True demo_browser))) = None"
    using l h1 h2 storage_round_trip [where JSON_stringify = demo_stringify
        and JSON_parse = demo_parse and v = True and s = "''true''" and key = "''token''"
        and w = demo_browser and w' = "setItem demo_stringify ''token'' True demo_browser"]
    by (simp_all add: useLocalStorage_def)
  have session: "fst (getSessionStorageItem demo_parse ''token''
       (setSessionStorageItem demo_stringify ''token'' True demo_browser)) = Some True"
    "fst (getSessionStorageItem demo_parse ''token''
       (removeSessionStorageItem ''token''
          (setSessionStorageItem demo_stringify ''token'' True demo_browser))) = None"
    using s h1 h2 storage_round_trip [where JSON_stringify = demo_stringify
        and JSON_parse = demo_parse and v = True and s = "''true''" and key = "''token''"
        and w = demo_browser
        and w' = "setSessionStorageItem demo_stringify ''token'' True demo_browser"]
    by (simp_all add: useSessionStorage_def)
  show ?thesis
    using h1 h2 l s local session by blast
qed

text \<open>
  C8: for both hooks, the getter returns \<^verbatim>\<open>undefined\<close> when the key has no entry, and
  also when the stored text does not parse; in the second case the error is appended to
  the console and the browser is otherwise unchanged, so the caller sees the same result
  in both cases. When the \<^verbatim>\<open>try\<close> block of the setter or of the remover raises, the
  error is appended to the console and the storage is left as it was. The three
  functions are total: each returns a value in every case, so nothing is raised to
  the caller.
\<close>

theorem storage_failures_are_logged_not_thrown:
  "(map_of (items (localStorage w)) key = None \<longrightarrow> fst (getItem JSON_parse key w) = None) \<and>
   (map_of (items (localStorage w)) key = Some s \<and> JSON_parse s = Inl e \<longrightarrow>
      getItem JSON_parse key w =
        (None, w\<lparr>console := console w @
           [ConsoleLog (if accessible (localStorage w) then e else SecurityError)]\<rparr>)) \<and>
   (setItem_try JSON_stringify key v w = Inl e' \<longrightarrow>
      setItem JSON_stringify key v w = w\<lparr>console := console w @ [ConsoleLog e']\<rparr>) \<and>
   (removeItem_try key w = Inl e' \<longrightarrow>
      removeItem key w = w\<lparr>console := console w @ [ConsoleLog e']\<rparr>) \<and>
   (map_of (items (sessionStorage w)) key = None \<longrightarrow>
      fst (getSessionStorageItem JSON_parse key w) = None) \<and>
   (map_of (items (sessionStorage w)) key = Some s \<and> JSON_parse s = Inl e \<longrightarrow>
      getSessionStorageItem JSON_parse key w =
        (None, w\<lparr>console := console w @
           [ConsoleError (if accessible (sessionStorage w) then e else SecurityError)]\<rparr>)) \<and>
   (setSessionStorageItem_try JSON_stringify key v w = Inl e' \<longrightarrow>
      setSessionStorageItem JSON_stringify key v w =
        w\<lparr>console := console w @ [ConsoleError e']\<rparr>) \<and>
   (removeSessionStorageItem_try key w = Inl e' \<longrightarrow>
      removeSessionStorageItem key w = w\<lparr>console := console w @ [ConsoleError e']\<rparr>)"
proof (intro conjI impI)
  show "fst (getItem JSON_parse key w) = None"
    if "map_of (items (localStorage w)) key = None"
    using that by (rule getItem_missing)
  show "getItem JSON_parse key w =
        (None, w\<lparr>console := console w @
           [ConsoleLog (if accessible (localStorage w) then e else SecurityError)]\<rparr>)"
    if "map_of (items (localStorage w)) key = Some s \<and> JSON_parse s = Inl e"
    using that getItem_unparseable_logged by blast
  show "setItem JSON_stringify key v w = w\<lparr>console := console w @ [ConsoleLog e']\<rparr>"
    if "setItem_try JSON_stringify key v w = Inl e'"
    using that by (rule setItem_failed)
  show "removeItem key w = w\<lparr>console := console w @ [ConsoleLog e']\<rparr>"
    if "removeItem_try key w = Inl e'"
    using that by (rule removeItem_failed)
  show "fst (getSessionStorageItem JSON_parse key w) = None"
    if "map_of (items (sessionStorage w)) key = None"
    using that by (rule getSessionStorageItem_missing)
  show "getSessionStorageItem JSON_parse key w =
        (None, w\<lparr>console := console w @
           [ConsoleError (if accessible (sessionStorage w) then e else SecurityError)]\<rparr>)"
    if "map_of (items (sessionStorage w)) key = Some s \<and> JSON_parse s = Inl e"
    using that getSessionStorageItem_unparseable_logged by blast
  show "setSessionStorageItem JSON_stringify key v w =
        w\<lparr>console := console w @ [ConsoleError e']\<rparr>"
    if "setSessionStorageItem_try JSON_stringify key v w = Inl e'"
    using that by (rule setSessionStorageItem_failed)
  show "removeSessionStorageItem key w = w\<lparr>console := console w @ [ConsoleError e']\<rparr>"
    if "removeSessionStorageItem_try key w = Inl e'"
    using that by (rule removeSessionStorageItem_failed)
qed

theorem storage_failures_are_logged_not_thrown_witness:
  "map_of (items (localStorage demo_browser)) ''nothing'' = None \<and>
   fst (getItem demo_parse ''nothing'' demo_browser) = None \<and>
   map_of (items (localStorage demo_browser)) ''theme'' = Some ''dark'' \<and>
   demo_parse ''dark'' = Inl SyntaxError \<and>
   getItem demo_parse ''theme'' demo_browser =
     (None, demo_browser\<lparr>console := [ConsoleLog SyntaxError]\<rparr>) \<and>
   setItem_try demo_stringify ''token'' True full_browser = Inl QuotaExceededError \<and>
   setItem demo_stringify ''token'' True full_browser =
     full_browser\<lparr>console := [ConsoleLog QuotaExceededError]\<rparr> \<and>
   removeItem_try ''token'' denied_browser = Inl SecurityError \<and>
   removeItem ''token'' denied_browser = denied_browser\<lparr>console := [ConsoleLog SecurityError]\<rparr> \<and>
   map_of (items (sessionStorage demo_browser)) ''nothing'' = None \<and>
   fst (getSessionStorageItem demo_parse ''nothing'' demo_browser) = None \<and>
   map_of (items (sessionStorage demo_browser)) ''theme'' = Some ''dark'' \<and>
   getSessionStorageItem demo_parse ''theme'' demo_browser =
     (None, demo_browser\<lparr>console := [ConsoleError SyntaxError]\<rparr>) \<and>
   setSessionStorageItem_try demo_stringify ''token'' True full_browser = Inl QuotaExceededError \<and>
   setSessionStorageItem demo_stringify ''token'' True full_browser =
     full_browser\<lparr>console := [ConsoleError QuotaExceededError]\<rparr> \<and>
   removeSessionStorageItem_try ''token'' denied_browser = Inl SecurityError \<and>
   removeSessionStorageItem ''token'' denied_browser =
     denied_browser\<lparr>console := [ConsoleError SecurityError]\<rparr>"
proof -
  have missing: "map_of (items (localStorage demo_browser)) ''nothing'' = None"
    "map_of (items (sessionStorage demo_browser)) ''nothing'' = None"
    by (simp_all add: demo_browser_def demo_area_def)
  have garbled: "map_of (items (localStorage demo_browser)) ''theme'' = Some ''dark''"
    "map_of (items (sessionStorage demo_browser)) ''theme'' = Some ''dark''"
    "demo_parse ''dark'' = Inl SyntaxError"
    by (simp_all add: demo_browser_def demo_area_def demo_parse_def)
  have acc: "accessible (localStorage demo_browser)" "accessible (sessionStorage demo_browser)"
    "console demo_browser = []" "console full_browser = []" "console denied_browser = []"
    by (simp_all add: demo_browser_def full_browser_def denied_browser_def demo_area_def)
  have full: "setItem_try demo_stringify ''token'' True full_browser = Inl QuotaExceededError"
    "setSessionStorageItem_try demo_stringify ''token'' True full_browser = Inl QuotaExceededError"
    by (simp_all add: storage_eval)
  have denied: "removeItem_try ''token'' denied_browser = Inl SecurityError"
    "removeSessionStorageItem_try ''token'' denied_browser = Inl SecurityError"
    by (simp_all add: storage_eval)
  note on_missing = storage_failures_are_logged_not_thrown [where w = demo_browser
      and key = "''nothing''" and JSON_parse = demo_parse and s = "''dark''"
      and e = SyntaxError and JSON_stringify = demo_stringify and v = True
      and e' = SecurityError]
  note on_garbled = storage_failures_are_logged_not_thrown [where w = demo_browser
      and key = "''theme''" and JSON_parse = demo_parse and s = "''dark''"
      and e = SyntaxError and JSON_stringify = demo_stringify and v = True
      and e' = SecurityError]
  note on_full = storage_failures_are_logged_not_thrown [where w = full_browser
      and key = "''token''" and JSON_parse = demo_parse and s = "''dark''"
      and e = SyntaxError and JSON_stringify = demo_stringify and v = True
      and e' = QuotaExceededError]
  note on_denied = storage_failures_are_logged_not_thrown [where w = denied_browser
      and key = "''token''" and JSON_parse = demo_parse and s = "''dark''"
      and e = SyntaxError and JSON_stringify = demo_stringify and v = True
      and e' = SecurityError]
  have a: "fst (getItem demo_parse ''nothing'' demo_browser) = None"
    "fst (getSessionStorageItem demo_parse ''nothing'' demo_browser) = None"
    using missing on_missing by simp_all
  have b: "getItem demo_parse ''theme'' demo_browser =
     (None, demo_browser\<lparr>console := [ConsoleLog SyntaxError]\<rparr>)"
    "getSessionStorageItem demo_parse ''theme'' demo_browser =
     (None, demo_browser\<lparr>console := [ConsoleError SyntaxError]\<rparr>)"
    using garbled acc on_garbled by simp_all
  have c: "setItem demo_stringify ''token'' True full_browser =
     full_browser\<lparr>console := [ConsoleLog QuotaExceededError]\<rparr>"
    "setSessionStorageItem demo_stringify ''token'' True full_browser =
     full_browser\<lparr>console := [ConsoleError QuotaExceededError]\<rparr>"
    using full acc on_full by simp_all
  have d: "removeItem ''token'' denied_browser =
     denied_browser\<lparr>console := [ConsoleLog SecurityError]\<rparr>"
    "removeSessionStorageItem ''token'' denied_browser =
     denied_browser\<lparr>console := [ConsoleError SecurityError]\<rparr>"
    using denied acc on_denied by simp_all
  show ?thesis
    using missing garbled full denied a b c d by blast
qed

end
